theory Spec2Isabelle
  imports Main "HOL-Library.Word" "HOL-Library.Stream" "HOL-Library.Sublist"
begin

unbundle bit_operations_syntax

section \<open>lite-lamport: a Lamport one-time signature library\<close>

text \<open>
  A shallow embedding of the class \<open>LiteLamport\<close> (index.js). The class keeps keys and
  signatures as arrays of text-encoded 32-byte hashes and packages them for the caller in
  one of four external formats. The hash functions (\<open>./sha256\<close>, \<open>./hmac-sha256\<close>), the
  random source (\<open>randombytes\<close>) and the JavaScript built-ins (\<open>Buffer\<close>, \<open>JSON\<close>) are not
  part of the class: they are parameters of the model.
\<close>

subsection \<open>JavaScript values, errors, character encodings\<close>

type_synonym u8 = "8 word"

text \<open>The values a caller can pass where the class expects an encoded key or signature.\<close>

datatype jsval =
    JUndefined
  | JNull
  | JBool bool
  | JNum int
  | JStr string
  | JArr "jsval list"
  | JBuf "u8 list"

text \<open>Every \<open>throw\<close> of the class, and the errors of the built-ins it calls.\<close>

datatype error =
    SeedTooShort
  | KeyNotArray
  | KeyInvalidLength
  | KeyInvalidItems
  | SignatureNotArray
  | SignatureInvalidLength
  | SignatureInvalidItems
  | KeyBufferInvalidLength
  | SignatureBufferTooLong
  | SignatureBufferNotMultiple
  | SyntaxError
  | TypeError

text \<open>
  A character encoding of Node's \<open>Buffer\<close>, by the three operations the class uses:
  \<open>Buffer.from(str, enc)\<close>, \<open>buf.toString(enc)\<close> and \<open>Buffer.byteLength(str, enc)\<close>.
\<close>

record charset =
  from_text :: "string \<Rightarrow> u8 list"
  to_text :: "u8 list \<Rightarrow> string"
  byte_length :: "string \<Rightarrow> nat"

text \<open>
  The options \<open>keyFormat\<close> and \<open>signatureFormat\<close>: the constructor compares them with
  \<open>'object'\<close>, \<open>'json'\<close> and \<open>'buffer'\<close>; any other value is taken as a character encoding.
\<close>

datatype format = FObject | FJson | FBuffer | FText charset

text \<open>
  The built-ins whose full behaviour lies outside the class: \<open>JSON.stringify\<close>,
  \<open>JSON.parse\<close> (it converts its argument to a string first, and throws a \<open>SyntaxError\<close>),
  and \<open>Buffer.from\<close> on an argument that is not a string (bytes from an array or a buffer,
  a \<open>TypeError\<close> otherwise).
\<close>

record runtime =
  JSON_stringify :: "jsval \<Rightarrow> string"
  JSON_parse :: "jsval \<Rightarrow> error + jsval"
  Buffer_from_other :: "jsval \<Rightarrow> error + u8 list"

text \<open>
  An instance of the class: the four options fixed by the constructor, and the two hash
  modules it stores in \<open>this.sha256\<close> and \<open>this.hmacSha256\<close>.
  \<open>sha256 message encoding\<close> returns the digest as text;
  \<open>hmacSha256 key keyEncoding message encoding\<close> likewise.
\<close>

record LiteLamport =
  keyFormat :: format
  signatureFormat :: format
  hashEncoding :: charset
  seedEncoding :: charset
  sha256 :: "string \<Rightarrow> charset \<Rightarrow> string"
  hmacSha256 :: "string \<Rightarrow> charset \<Rightarrow> string \<Rightarrow> charset \<Rightarrow> string"

record keypair =
  privateKey :: jsval
  publicKey :: jsval

abbreviation (input) CHECKSUM_BYTE_SIZE :: nat where "CHECKSUM_BYTE_SIZE \<equiv> 1"
abbreviation (input) KEY_SIG_ENTRY_COUNT :: nat where "KEY_SIG_ENTRY_COUNT \<equiv> 264"
abbreviation (input) HASH_ELEMENT_BYTE_SIZE :: nat where "HASH_ELEMENT_BYTE_SIZE \<equiv> 32"
abbreviation (input) SEED_BYTE_SIZE :: nat where "SEED_BYTE_SIZE \<equiv> 32"

subsection \<open>Built-ins with a fixed meaning\<close>

text \<open>\<open>Buffer.from(value, encoding)\<close>: a string is decoded under the encoding.\<close>

definition Buffer_from :: "runtime \<Rightarrow> jsval \<Rightarrow> charset \<Rightarrow> error + u8 list" where
  "Buffer_from rt v cs = (case v of JStr s \<Rightarrow> Inr (from_text cs s) | _ \<Rightarrow> Buffer_from_other rt v)"

text \<open>\<open>buf.slice(start, end)\<close> for \<open>0 \<le> start \<le> end\<close>: the bytes in range, clamped to the buffer.\<close>

definition slice :: "'a list \<Rightarrow> nat \<Rightarrow> nat \<Rightarrow> 'a list" where
  "slice buf start stop = take (stop - start) (drop start buf)"

text \<open>\<open>array[index]\<close>: \<open>undefined\<close> (here \<open>None\<close>) out of range.\<close>

definition js_index :: "'a list \<Rightarrow> nat \<Rightarrow> 'a option" where
  "js_index xs i = (if i < length xs then Some (xs ! i) else None)"

text \<open>The text of a number in a template literal, for an integer: its decimal digits.\<close>

definition digit_char :: "nat \<Rightarrow> char" where
  "digit_char d = char_of (48 + d)"

function string_of_nat :: "nat \<Rightarrow> string" where
  "string_of_nat n = (if n < 10 then [digit_char n] else string_of_nat (n div 10) @ [digit_char (n mod 10)])"
  by pat_completeness auto
termination
  by (relation "measure id") auto

declare string_of_nat.simps [simp del]

definition string_of_int :: "int \<Rightarrow> string" where
  "string_of_int i = (if i < 0 then CHR ''-'' # string_of_nat (nat (- i)) else string_of_nat (nat i))"

text \<open>\<open>randomBytes(n)\<close>: the next \<open>n\<close> bytes of the random source, which moves on.\<close>

definition randomBytes :: "nat \<Rightarrow> u8 stream \<Rightarrow> u8 list \<times> u8 stream" where
  "randomBytes n src = (stake n src, sdrop n src)"

subsection \<open>The encoding \<open>'hex'\<close>\<close>

text \<open>
  Node's \<open>'hex'\<close>: \<open>toString\<close> writes two lower-case digits per byte; \<open>Buffer.from\<close> reads
  pairs of digits of either case and stops at the first pair that is not two digits (a
  last odd character is dropped); \<open>byteLength\<close> is half the length of the string, whatever
  its characters are.
\<close>

definition hex_digit :: "nat \<Rightarrow> char" where
  "hex_digit n = (if n < 10 then char_of (48 + n) else char_of (87 + n))"

definition hex_value :: "char \<Rightarrow> nat option" where
  "hex_value c =
     (let n = (of_char c :: nat) in
      if 48 \<le> n \<and> n \<le> 57 then Some (n - 48)
      else if 97 \<le> n \<and> n \<le> 102 then Some (n - 87)
      else if 65 \<le> n \<and> n \<le> 70 then Some (n - 55)
      else None)"

definition hex_toString :: "u8 list \<Rightarrow> string" where
  "hex_toString buf = concat (map (\<lambda>b. [hex_digit (unat b div 16), hex_digit (unat b mod 16)]) buf)"

fun hex_from :: "string \<Rightarrow> u8 list" where
  "hex_from (a # b # rest) =
     (case hex_value a of
        None \<Rightarrow> []
      | Some h \<Rightarrow> (case hex_value b of
          None \<Rightarrow> []
        | Some l \<Rightarrow> of_nat (h * 16 + l) # hex_from rest))"
| "hex_from _ = []"

definition hex_byteLength :: "string \<Rightarrow> nat" where
  "hex_byteLength s = length s div 2"

definition hex :: charset where
  "hex = \<lparr>from_text = hex_from, to_text = hex_toString, byte_length = hex_byteLength\<rparr>"

subsection \<open>Bits\<close>

text \<open>\<open>convertBufferToBitArray\<close>: each byte, most significant bit first.\<close>

definition convertBufferToBitArray :: "u8 list \<Rightarrow> nat list" where
  "convertBufferToBitArray buffer =
     concat (map (\<lambda>byte. map (\<lambda>i. unat (drop_bit (7 - i) byte AND 1)) [0..<8]) buffer)"

definition convertEncodedStringToBitArray :: "LiteLamport \<Rightarrow> string \<Rightarrow> nat list" where
  "convertEncodedStringToBitArray L encodedString =
     convertBufferToBitArray (from_text (hashEncoding L) encodedString)"

text \<open>
  \<open>messageBitArray.reduce((total, bit) => total + (bit ^ 1), 0)\<close>, and
  \<open>Buffer.alloc(CHECKSUM_BYTE_SIZE).fill(checksum)\<close>, which keeps the low eight bits of the
  number in each byte.
\<close>

definition checksumOf :: "nat list \<Rightarrow> nat" where
  "checksumOf bits = foldl (\<lambda>total bit. total + (bit XOR 1)) 0 bits"

definition checksumBufferOf :: "nat \<Rightarrow> u8 list" where
  "checksumBufferOf checksum = replicate CHECKSUM_BYTE_SIZE (of_nat checksum)"

text \<open>
  The bit array that \<open>sign\<close> (lines 187-194) and \<open>verify\<close> (lines 212-220) both build, by
  the same statements: the bits of the digest, then the bits of the checksum buffer pushed
  one by one.
\<close>

definition messageBitArrayOf :: "LiteLamport \<Rightarrow> string \<Rightarrow> nat list" where
  "messageBitArrayOf L message =
     (let messageHash = sha256 L message (hashEncoding L);
          messageBitArray = convertEncodedStringToBitArray L messageHash;
          checksum = checksumOf messageBitArray;
          checksumBuffer = checksumBufferOf checksum;
          checksumBitArray = convertBufferToBitArray checksumBuffer
      in messageBitArray @ checksumBitArray)"

subsection \<open>Validation and the four formats\<close>

text \<open>The callback of \<open>every\<close> in both validators.\<close>

definition validItem :: "LiteLamport \<Rightarrow> jsval \<Rightarrow> bool" where
  "validItem L item =
     (case item of
        JStr s \<Rightarrow> byte_length (hashEncoding L) s = HASH_ELEMENT_BYTE_SIZE
      | _ \<Rightarrow> False)"

definition validateRawKeyFormat :: "LiteLamport \<Rightarrow> jsval \<Rightarrow> error + unit" where
  "validateRawKeyFormat L key =
     (case key of
        JArr items \<Rightarrow>
          if length items \<noteq> KEY_SIG_ENTRY_COUNT then Inl KeyInvalidLength
          else if \<not> list_all (validItem L) items then Inl KeyInvalidItems
          else Inr ()
      | _ \<Rightarrow> Inl KeyNotArray)"

definition validateRawSignatureFormat :: "LiteLamport \<Rightarrow> jsval \<Rightarrow> error + unit" where
  "validateRawSignatureFormat L signature =
     (case signature of
        JArr items \<Rightarrow>
          if length items > KEY_SIG_ENTRY_COUNT then Inl SignatureInvalidLength
          else if \<not> list_all (validItem L) items then Inl SignatureInvalidItems
          else Inr ()
      | _ \<Rightarrow> Inl SignatureNotArray)"

text \<open>
  A validated array read as the list of its strings. The validators let only arrays of
  strings through, so the other cases are never reached behind them.
\<close>

definition string_of_item :: "jsval \<Rightarrow> string" where
  "string_of_item item = (case item of JStr s \<Rightarrow> s | _ \<Rightarrow> [])"

definition strings_of :: "jsval \<Rightarrow> string list" where
  "strings_of v = (case v of JArr items \<Rightarrow> map string_of_item items | _ \<Rightarrow> [])"

definition array_of :: "string list \<Rightarrow> jsval" where
  "array_of raw = JArr (map JStr raw)"

definition encodeKeyToBuffer :: "LiteLamport \<Rightarrow> string list \<Rightarrow> u8 list" where
  "encodeKeyToBuffer L rawKey = concat (map (from_text (hashEncoding L)) rawKey)"

text \<open>
  \<open>_decodeKeyFromBuffer\<close>. A value without \<open>byteLength\<close> fails the length test
  (\<open>undefined !== 8448\<close>); reading the property of \<open>null\<close> or \<open>undefined\<close> is a \<open>TypeError\<close>.
\<close>

definition decodeKeyFromBuffer :: "LiteLamport \<Rightarrow> jsval \<Rightarrow> error + string list" where
  "decodeKeyFromBuffer L encodedKey =
     (case encodedKey of
        JBuf buf \<Rightarrow>
          (let expectedByteSize = KEY_SIG_ENTRY_COUNT * HASH_ELEMENT_BYTE_SIZE in
           if length buf \<noteq> expectedByteSize then Inl KeyBufferInvalidLength
           else
             (let entryCount = length buf div HASH_ELEMENT_BYTE_SIZE in
              Inr (map (\<lambda>i. let byteOffset = i * HASH_ELEMENT_BYTE_SIZE in
                          to_text (hashEncoding L)
                            (slice buf byteOffset (byteOffset + HASH_ELEMENT_BYTE_SIZE)))
                    [0..<entryCount])))
      | JUndefined \<Rightarrow> Inl TypeError
      | JNull \<Rightarrow> Inl TypeError
      | _ \<Rightarrow> Inl KeyBufferInvalidLength)"

definition encodeSignatureToBuffer :: "LiteLamport \<Rightarrow> string list \<Rightarrow> u8 list" where
  "encodeSignatureToBuffer L rawSignature = concat (map (from_text (hashEncoding L)) rawSignature)"

text \<open>
  \<open>_decodeSignatureFromBuffer\<close>. For a value without \<open>byteLength\<close> the first test is
  false (\<open>undefined > 8448\<close>) and the second true (\<open>NaN !== 0\<close>).
\<close>

definition decodeSignatureFromBuffer :: "LiteLamport \<Rightarrow> jsval \<Rightarrow> error + string list" where
  "decodeSignatureFromBuffer L encodedSignature =
     (case encodedSignature of
        JBuf buf \<Rightarrow>
          (let maxExpectedByteSize = KEY_SIG_ENTRY_COUNT * HASH_ELEMENT_BYTE_SIZE in
           if length buf > maxExpectedByteSize then Inl SignatureBufferTooLong
           else if length buf mod HASH_ELEMENT_BYTE_SIZE \<noteq> 0 then Inl SignatureBufferNotMultiple
           else
             (let entryCount = length buf div HASH_ELEMENT_BYTE_SIZE in
              Inr (map (\<lambda>i. let byteOffset = i * HASH_ELEMENT_BYTE_SIZE in
                          to_text (hashEncoding L)
                            (slice buf byteOffset (byteOffset + HASH_ELEMENT_BYTE_SIZE)))
                    [0..<entryCount])))
      | JUndefined \<Rightarrow> Inl TypeError
      | JNull \<Rightarrow> Inl TypeError
      | _ \<Rightarrow> Inl SignatureBufferNotMultiple)"

text \<open>\<open>encodeKey\<close> and \<open>decodeKey\<close>, as the constructor sets them for each \<open>keyFormat\<close>.\<close>

definition encodeKey :: "LiteLamport \<Rightarrow> runtime \<Rightarrow> string list \<Rightarrow> jsval" where
  "encodeKey L rt rawKey =
     (case keyFormat L of
        FObject \<Rightarrow> array_of rawKey
      | FJson \<Rightarrow> JStr (JSON_stringify rt (array_of rawKey))
      | FBuffer \<Rightarrow> JBuf (encodeKeyToBuffer L rawKey)
      | FText cs \<Rightarrow> JStr (to_text cs (encodeKeyToBuffer L rawKey)))"

definition decodeKey :: "LiteLamport \<Rightarrow> runtime \<Rightarrow> jsval \<Rightarrow> error + string list" where
  "decodeKey L rt encodedKey =
     (case keyFormat L of
        FObject \<Rightarrow>
          (case validateRawKeyFormat L encodedKey of
             Inl e \<Rightarrow> Inl e
           | Inr _ \<Rightarrow> Inr (strings_of encodedKey))
      | FJson \<Rightarrow>
          (case JSON_parse rt encodedKey of
             Inl e \<Rightarrow> Inl e
           | Inr decodedKey \<Rightarrow>
               (case validateRawKeyFormat L decodedKey of
                  Inl e \<Rightarrow> Inl e
                | Inr _ \<Rightarrow> Inr (strings_of decodedKey)))
      | FBuffer \<Rightarrow> decodeKeyFromBuffer L encodedKey
      | FText cs \<Rightarrow>
          (case Buffer_from rt encodedKey cs of
             Inl e \<Rightarrow> Inl e
           | Inr keyBuffer \<Rightarrow> decodeKeyFromBuffer L (JBuf keyBuffer)))"

text \<open>
  \<open>encodeSignature\<close> and \<open>decodeSignature\<close>, for each \<open>signatureFormat\<close>. Under
  \<open>'object'\<close> the decoder returns a copy of the array (\<open>[...encodedSignature]\<close>), which has
  the same entries.
\<close>

definition encodeSignature :: "LiteLamport \<Rightarrow> runtime \<Rightarrow> string list \<Rightarrow> jsval" where
  "encodeSignature L rt rawSignature =
     (case signatureFormat L of
        FObject \<Rightarrow> array_of rawSignature
      | FJson \<Rightarrow> JStr (JSON_stringify rt (array_of rawSignature))
      | FBuffer \<Rightarrow> JBuf (encodeSignatureToBuffer L rawSignature)
      | FText cs \<Rightarrow> JStr (to_text cs (encodeSignatureToBuffer L rawSignature)))"

definition decodeSignature :: "LiteLamport \<Rightarrow> runtime \<Rightarrow> jsval \<Rightarrow> error + string list" where
  "decodeSignature L rt encodedSignature =
     (case signatureFormat L of
        FObject \<Rightarrow>
          (case validateRawSignatureFormat L encodedSignature of
             Inl e \<Rightarrow> Inl e
           | Inr _ \<Rightarrow> Inr (strings_of encodedSignature))
      | FJson \<Rightarrow>
          (case JSON_parse rt encodedSignature of
             Inl e \<Rightarrow> Inl e
           | Inr decodedSignature \<Rightarrow>
               (case validateRawSignatureFormat L decodedSignature of
                  Inl e \<Rightarrow> Inl e
                | Inr _ \<Rightarrow> Inr (strings_of decodedSignature)))
      | FBuffer \<Rightarrow> decodeSignatureFromBuffer L encodedSignature
      | FText cs \<Rightarrow>
          (case Buffer_from rt encodedSignature cs of
             Inl e \<Rightarrow> Inl e
           | Inr signatureBuffer \<Rightarrow> decodeSignatureFromBuffer L (JBuf signatureBuffer)))"

subsection \<open>Keys\<close>

definition getRawPublicKeyFromRawPrivateKey :: "LiteLamport \<Rightarrow> string list \<Rightarrow> string list" where
  "getRawPublicKeyFromRawPrivateKey L privateKeyRaw =
     map (\<lambda>encodedString. sha256 L encodedString (hashEncoding L)) privateKeyRaw"

definition getPublicKeyFromPrivateKey :: "LiteLamport \<Rightarrow> runtime \<Rightarrow> jsval \<Rightarrow> error + jsval" where
  "getPublicKeyFromPrivateKey L rt privateKey' =
     (case decodeKey L rt privateKey' of
        Inl e \<Rightarrow> Inl e
      | Inr privateKeyRaw \<Rightarrow> Inr (encodeKey L rt (getRawPublicKeyFromRawPrivateKey L privateKeyRaw)))"

text \<open>
  \<open>generateRandomArrayFromSeed\<close>: entry \<open>i\<close> is the keyed hash of the text
  \<open>`${suffix}-${i}`\<close> under the seed, for \<open>i\<close> from 0 up to \<open>length\<close>.
\<close>

definition generateRandomArrayFromSeed :: "LiteLamport \<Rightarrow> nat \<Rightarrow> string \<Rightarrow> int \<Rightarrow> string list" where
  "generateRandomArrayFromSeed L len seed suffix' =
     map (\<lambda>i. hmacSha256 L seed (seedEncoding L)
                 (string_of_int suffix' @ ''-'' @ string_of_nat i) (hashEncoding L))
       [0..<len]"

text \<open>
  \<open>generateRandomArray\<close>: \<open>length\<close> draws of \<open>elementBytes\<close> random bytes each, in order,
  each written as text under the hash encoding.
\<close>

fun generateRandomArray :: "LiteLamport \<Rightarrow> nat \<Rightarrow> nat \<Rightarrow> u8 stream \<Rightarrow> string list \<times> u8 stream" where
  "generateRandomArray L 0 elementBytes src = ([], src)"
| "generateRandomArray L (Suc n) elementBytes src =
     (let (bytes, src') = randomBytes elementBytes src;
          (randomArray, src'') = generateRandomArray L n elementBytes src'
      in (to_text (hashEncoding L) bytes # randomArray, src''))"

text \<open>\<open>generateKeysFromSeed\<close>; the index is \<open>None\<close> when the caller passes none.\<close>

definition generateKeysFromSeed :: "LiteLamport \<Rightarrow> runtime \<Rightarrow> string \<Rightarrow> int option \<Rightarrow> error + keypair" where
  "generateKeysFromSeed L rt seed index =
     (let seedBuffer = from_text (seedEncoding L) seed in
      if length seedBuffer < SEED_BYTE_SIZE then Inl SeedTooShort
      else
        (let index' = (case index of None \<Rightarrow> 0 | Some i \<Rightarrow> i);
             privateKey' = generateRandomArrayFromSeed L KEY_SIG_ENTRY_COUNT seed index';
             publicKey' = getRawPublicKeyFromRawPrivateKey L privateKey'
         in Inr \<lparr>privateKey = encodeKey L rt privateKey', publicKey = encodeKey L rt publicKey'\<rparr>))"

definition generateKeys :: "LiteLamport \<Rightarrow> runtime \<Rightarrow> u8 stream \<Rightarrow> keypair \<times> u8 stream" where
  "generateKeys L rt src =
     (let (privateKey', src') = generateRandomArray L KEY_SIG_ENTRY_COUNT HASH_ELEMENT_BYTE_SIZE src;
          publicKey' = getRawPublicKeyFromRawPrivateKey L privateKey'
      in (\<lparr>privateKey = encodeKey L rt privateKey', publicKey = encodeKey L rt publicKey'\<rparr>, src'))"

subsection \<open>Signing\<close>

text \<open>
  Lines 195-197 of \<open>sign\<close>: the entry of the private key at each index whose bit is not 0
  (\<open>undefined\<close> beyond the key), \<open>null\<close> elsewhere; then \<open>filter(item => item)\<close> keeps what
  is truthy, which drops \<open>null\<close>, \<open>undefined\<close> and the empty string.
\<close>

definition truthy :: "string option \<Rightarrow> bool" where
  "truthy item = (case item of None \<Rightarrow> False | Some s \<Rightarrow> s \<noteq> [])"

definition selectEntries :: "nat list \<Rightarrow> string list \<Rightarrow> string list" where
  "selectEntries messageBitArray privateKeyRaw =
     map the (filter truthy
       (map (\<lambda>(index, bit). if bit \<noteq> 0 then js_index privateKeyRaw index else None)
         (enumerate 0 messageBitArray)))"

definition signRaw :: "LiteLamport \<Rightarrow> string \<Rightarrow> string list \<Rightarrow> string list" where
  "signRaw L message privateKeyRaw = selectEntries (messageBitArrayOf L message) privateKeyRaw"

definition sign :: "LiteLamport \<Rightarrow> runtime \<Rightarrow> string \<Rightarrow> jsval \<Rightarrow> error + jsval" where
  "sign L rt message privateKey' =
     (case decodeKey L rt privateKey' of
        Inl e \<Rightarrow> Inl e
      | Inr privateKeyRaw \<Rightarrow> Inr (encodeSignature L rt (signRaw L message privateKeyRaw)))"

subsection \<open>Verification\<close>

text \<open>
  The callback of \<open>messageBitArray.every\<close> (lines 222-233), run over the bits with their
  indices. \<open>invertedSignatureRaw\<close> is the reversed signature; \<open>pop()\<close> takes its last entry
  away. \<open>every\<close> stops with false at the first callback that returns false.
\<close>

fun verifyEvery :: "LiteLamport \<Rightarrow> string list \<Rightarrow> string list \<Rightarrow> (nat \<times> nat) list \<Rightarrow> bool" where
  "verifyEvery L invertedSignatureRaw publicKeyRaw [] = True"
| "verifyEvery L invertedSignatureRaw publicKeyRaw ((index, bit') # rest) =
     (if bit' = 0 then verifyEvery L invertedSignatureRaw publicKeyRaw rest
      else if length invertedSignatureRaw = 0 then False
      else
        (let nextSignatureItem = last invertedSignatureRaw;
             signatureItemHash = sha256 L nextSignatureItem (hashEncoding L);
             targetPublicKeyItem = js_index publicKeyRaw index
         in if Some signatureItemHash = targetPublicKeyItem
            then verifyEvery L (butlast invertedSignatureRaw) publicKeyRaw rest
            else False))"

definition verifyRaw :: "LiteLamport \<Rightarrow> string \<Rightarrow> string list \<Rightarrow> string list \<Rightarrow> bool" where
  "verifyRaw L message signatureRaw publicKeyRaw =
     (let invertedSignatureRaw = rev signatureRaw;
          messageBitArray = messageBitArrayOf L message
      in verifyEvery L invertedSignatureRaw publicKeyRaw (enumerate 0 messageBitArray))"

text \<open>
  \<open>verify\<close>: both decoders run inside \<open>try\<close>, and the \<open>catch\<close> returns false for whatever
  they throw.
\<close>

definition verify :: "LiteLamport \<Rightarrow> runtime \<Rightarrow> string \<Rightarrow> jsval \<Rightarrow> jsval \<Rightarrow> bool" where
  "verify L rt message signature publicKey' =
     (case decodeSignature L rt signature of
        Inl e \<Rightarrow> False
      | Inr signatureRaw \<Rightarrow>
          (case decodeKey L rt publicKey' of
             Inl e \<Rightarrow> False
           | Inr publicKeyRaw \<Rightarrow> verifyRaw L message signatureRaw publicKeyRaw))"

subsection \<open>Verification over a store of array objects\<close>

text \<open>
  \<open>verify\<close> reverses and pops an array in place, and under \<open>'object'\<close> \<open>decodeKey\<close> hands
  the caller's own array back. To see which array objects a call writes to, the arrays live
  in a store: the object at address \<open>a\<close> is entry \<open>a\<close> of the list, a new object is put at
  the end. A caller's value is a reference to an array object, or any other value. Strings
  and numbers cannot be changed in JavaScript, and the class never writes to a buffer it
  is given, so these stay plain values.
\<close>

type_synonym addr = nat
type_synonym store = "jsval list list"

datatype hval = HRef addr | HVal jsval

text \<open>What a value looks like to someone who reads it in a given store.\<close>

definition deref :: "store \<Rightarrow> hval \<Rightarrow> jsval" where
  "deref st v =
     (case v of
        HRef a \<Rightarrow> (if a < length st then JArr (st ! a) else JUndefined)
      | HVal x \<Rightarrow> x)"

text \<open>A reference of the caller's points to an object that exists.\<close>

definition valid_in :: "store \<Rightarrow> hval \<Rightarrow> bool" where
  "valid_in st v = (case v of HRef a \<Rightarrow> a < length st | HVal x \<Rightarrow> True)"

definition items_of :: "jsval \<Rightarrow> jsval list" where
  "items_of v = (case v of JArr items \<Rightarrow> items | _ \<Rightarrow> [])"

text \<open>
  \<open>decodeSignature\<close> with the store: every format ends with an array object that did not
  exist before the call. \<open>'object'\<close> copies the caller's array (\<open>[...encodedSignature]\<close>),
  \<open>'json'\<close> returns what \<open>JSON.parse\<close> built, the two buffer formats push onto a new
  \<open>signatureArray\<close>. The result is the address of that object.
\<close>

definition decodeSignatureH :: "LiteLamport \<Rightarrow> runtime \<Rightarrow> store \<Rightarrow> hval \<Rightarrow> error + (addr \<times> store)" where
  "decodeSignatureH L rt st encodedSignature =
     (case signatureFormat L of
        FObject \<Rightarrow>
          (case validateRawSignatureFormat L (deref st encodedSignature) of
             Inl e \<Rightarrow> Inl e
           | Inr _ \<Rightarrow> Inr (length st, st @ [items_of (deref st encodedSignature)]))
      | FJson \<Rightarrow>
          (case JSON_parse rt (deref st encodedSignature) of
             Inl e \<Rightarrow> Inl e
           | Inr decodedSignature \<Rightarrow>
               (case validateRawSignatureFormat L decodedSignature of
                  Inl e \<Rightarrow> Inl e
                | Inr _ \<Rightarrow> Inr (length st, st @ [items_of decodedSignature])))
      | FBuffer \<Rightarrow>
          (case decodeSignatureFromBuffer L (deref st encodedSignature) of
             Inl e \<Rightarrow> Inl e
           | Inr signatureArray \<Rightarrow> Inr (length st, st @ [map JStr signatureArray]))
      | FText cs \<Rightarrow>
          (case Buffer_from rt (deref st encodedSignature) cs of
             Inl e \<Rightarrow> Inl e
           | Inr signatureBuffer \<Rightarrow>
               (case decodeSignatureFromBuffer L (JBuf signatureBuffer) of
                  Inl e \<Rightarrow> Inl e
                | Inr signatureArray \<Rightarrow> Inr (length st, st @ [map JStr signatureArray]))))"

text \<open>
  \<open>decodeKey\<close> with the store: \<open>'object'\<close> validates the caller's value and returns that
  same value (\<open>return encodedkey\<close>), so the decoded key is the caller's array object itself;
  the other formats build a new array.
\<close>

definition decodeKeyH :: "LiteLamport \<Rightarrow> runtime \<Rightarrow> store \<Rightarrow> hval \<Rightarrow> error + (hval \<times> store)" where
  "decodeKeyH L rt st encodedKey =
     (case keyFormat L of
        FObject \<Rightarrow>
          (case validateRawKeyFormat L (deref st encodedKey) of
             Inl e \<Rightarrow> Inl e
           | Inr _ \<Rightarrow> Inr (encodedKey, st))
      | FJson \<Rightarrow>
          (case JSON_parse rt (deref st encodedKey) of
             Inl e \<Rightarrow> Inl e
           | Inr decodedKey \<Rightarrow>
               (case validateRawKeyFormat L decodedKey of
                  Inl e \<Rightarrow> Inl e
                | Inr _ \<Rightarrow> Inr (HRef (length st), st @ [items_of decodedKey])))
      | FBuffer \<Rightarrow>
          (case decodeKeyFromBuffer L (deref st encodedKey) of
             Inl e \<Rightarrow> Inl e
           | Inr key \<Rightarrow> Inr (HRef (length st), st @ [map JStr key]))
      | FText cs \<Rightarrow>
          (case Buffer_from rt (deref st encodedKey) cs of
             Inl e \<Rightarrow> Inl e
           | Inr keyBuffer \<Rightarrow>
               (case decodeKeyFromBuffer L (JBuf keyBuffer) of
                  Inl e \<Rightarrow> Inl e
                | Inr key \<Rightarrow> Inr (HRef (length st), st @ [map JStr key]))))"

text \<open>
  The callback of \<open>every\<close> with the store: \<open>pop()\<close> shortens the array object at
  \<open>invertedSignatureRaw\<close>; \<open>publicKeyRaw[index]\<close> reads the key's array object as it is
  at that moment.
\<close>

fun verifyEveryH :: "LiteLamport \<Rightarrow> addr \<Rightarrow> hval \<Rightarrow> store \<Rightarrow> (nat \<times> nat) list \<Rightarrow> bool \<times> store" where
  "verifyEveryH L invertedSignatureRaw publicKeyRaw st [] = (True, st)"
| "verifyEveryH L invertedSignatureRaw publicKeyRaw st ((index, bit') # rest) =
     (if bit' = 0 then verifyEveryH L invertedSignatureRaw publicKeyRaw st rest
      else if length (st ! invertedSignatureRaw) = 0 then (False, st)
      else
        (let nextSignatureItem = last (st ! invertedSignatureRaw);
             st' = st[invertedSignatureRaw := butlast (st ! invertedSignatureRaw)];
             signatureItemHash = sha256 L (string_of_item nextSignatureItem) (hashEncoding L);
             targetPublicKeyItem = js_index (items_of (deref st' publicKeyRaw)) index
         in if Some (JStr signatureItemHash) = targetPublicKeyItem
            then verifyEveryH L invertedSignatureRaw publicKeyRaw st' rest
            else (False, st')))"

text \<open>
  \<open>verify\<close> with the store. \<open>signatureRaw.reverse()\<close> reverses the decoded array object in
  place and returns that same object.
\<close>

definition verifyH :: "LiteLamport \<Rightarrow> runtime \<Rightarrow> store \<Rightarrow> string \<Rightarrow> hval \<Rightarrow> hval \<Rightarrow> bool \<times> store" where
  "verifyH L rt st message signature publicKey' =
     (case decodeSignatureH L rt st signature of
        Inl e \<Rightarrow> (False, st)
      | Inr (signatureRaw, st1) \<Rightarrow>
          (case decodeKeyH L rt st1 publicKey' of
             Inl e \<Rightarrow> (False, st1)
           | Inr (publicKeyRaw, st2) \<Rightarrow>
               (let st3 = st2[signatureRaw := rev (st2 ! signatureRaw)];
                    invertedSignatureRaw = signatureRaw;
                    messageBitArray = messageBitArrayOf L message
                in verifyEveryH L invertedSignatureRaw publicKeyRaw st3 (enumerate 0 messageBitArray))))"

section \<open>The specification's reference algorithms\<close>

text \<open>
  The definitions of this section follow the words of the specification, not the code:
  the bit codec of its section 4.1 and the verifier of its section 4.4. The theorems
  compare them with the code above.
\<close>

definition digestToBits_spec :: "u8 list \<Rightarrow> nat list" where
  "digestToBits_spec digest = concat (map (\<lambda>byte. map (\<lambda>i. (unat byte div 2 ^ (7 - i)) mod 2) [0..<8]) digest)"

definition computeChecksum_spec :: "nat list \<Rightarrow> nat" where
  "computeChecksum_spec bits = (\<Sum>b\<leftarrow>bits. 1 - b) mod 256"

definition checksumToBits_spec :: "nat \<Rightarrow> nat list" where
  "checksumToBits_spec byte = map (\<lambda>i. (byte div 2 ^ (7 - i)) mod 2) [0..<8]"

definition popcount :: "nat list \<Rightarrow> nat" where
  "popcount bits = length (filter (\<lambda>b. b \<noteq> 0) bits)"

text \<open>The positions of the 1-bits, in increasing order.\<close>

definition onePositions :: "nat list \<Rightarrow> nat list" where
  "onePositions bits = filter (\<lambda>i. bits ! i \<noteq> 0) [0..<length bits]"

text \<open>The digest of a message as bytes: what the hash module's text stands for.\<close>

definition Hash_spec :: "LiteLamport \<Rightarrow> string \<Rightarrow> u8 list" where
  "Hash_spec L message = from_text (hashEncoding L) (sha256 L message (hashEncoding L))"

definition messageBitVector_spec :: "LiteLamport \<Rightarrow> string \<Rightarrow> nat list" where
  "messageBitVector_spec L message =
     (let bits = digestToBits_spec (Hash_spec L message);
          checksum = computeChecksum_spec bits
      in bits @ checksumToBits_spec checksum)"

text \<open>
  Section 4.4, step 2: walk the bit positions from \<open>i\<close> on, \<open>n\<close> of them, with a cursor into
  the signature. A 0-bit checks nothing; a 1-bit fails when the cursor is past the
  signature, else takes the entry at the cursor, requires its hash to equal
  \<open>publicKey[i]\<close>, and advances the cursor.
\<close>

fun walk_spec :: "LiteLamport \<Rightarrow> nat list \<Rightarrow> string list \<Rightarrow> string list \<Rightarrow> nat \<Rightarrow> nat \<Rightarrow> nat \<Rightarrow> bool" where
  "walk_spec L bits signature publicKey' i cursor 0 = True"
| "walk_spec L bits signature publicKey' i cursor (Suc n) =
     (if bits ! i = 0 then walk_spec L bits signature publicKey' (i + 1) cursor n
      else if cursor \<ge> length signature then False
      else if sha256 L (signature ! cursor) (hashEncoding L) = publicKey' ! i
           then walk_spec L bits signature publicKey' (i + 1) (cursor + 1) n
           else False)"

definition verify_spec :: "LiteLamport \<Rightarrow> runtime \<Rightarrow> string \<Rightarrow> jsval \<Rightarrow> jsval \<Rightarrow> bool" where
  "verify_spec L rt message signature publicKey' =
     (case decodeSignature L rt signature of
        Inl e \<Rightarrow> False
      | Inr sig \<Rightarrow>
          (case decodeKey L rt publicKey' of
             Inl e \<Rightarrow> False
           | Inr pk \<Rightarrow> walk_spec L (messageBitVector_spec L message) sig pk 0 0 264))"

text \<open>
  The same walk told on lists (the specification's design note: "consume signature entries
  strictly in order from the front"): each 1-bit takes the first entry left.
\<close>

fun consumeFront :: "LiteLamport \<Rightarrow> string list \<Rightarrow> string list \<Rightarrow> (nat \<times> nat) list \<Rightarrow> bool" where
  "consumeFront L signature publicKey' [] = True"
| "consumeFront L signature publicKey' ((index, bit') # rest) =
     (if bit' = 0 then consumeFront L signature publicKey' rest
      else (case signature of
              [] \<Rightarrow> False
            | entry # signature' \<Rightarrow>
                if js_index publicKey' index = Some (sha256 L entry (hashEncoding L))
                then consumeFront L signature' publicKey' rest
                else False))"

section \<open>What the class expects of its surroundings\<close>

text \<open>
  The class relies on the hash modules and on the encodings it is configured with. These
  predicates state what it relies on; the theorems name the ones they need.
\<close>

text \<open>A string is the text of a 32-byte value: it decodes to 32 bytes, which encode to it.\<close>

definition digest_text :: "charset \<Rightarrow> string \<Rightarrow> bool" where
  "digest_text cs s \<longleftrightarrow>
     length (from_text cs s) = HASH_ELEMENT_BYTE_SIZE \<and> to_text cs (from_text cs s) = s"

text \<open>Decoding the text of any bytes gives the bytes back (as hex and base64 do).\<close>

definition lossless :: "charset \<Rightarrow> bool" where
  "lossless cs \<longleftrightarrow> (\<forall>buf. from_text cs (to_text cs buf) = buf)"

text \<open>Moreover \<open>byteLength\<close> tells the number of bytes of a text, and the empty string has none.\<close>

definition binary_safe :: "charset \<Rightarrow> bool" where
  "binary_safe cs \<longleftrightarrow>
     lossless cs \<and> (\<forall>buf. byte_length cs (to_text cs buf) = length buf) \<and> byte_length cs [] = 0"

text \<open>
  No 32-byte entry is the empty string: neither a string that measures 32 bytes nor the
  text of 32 bytes. This holds of every encoding of Node.
\<close>

definition entries_nonempty :: "charset \<Rightarrow> bool" where
  "entries_nonempty cs \<longleftrightarrow>
     byte_length cs [] \<noteq> HASH_ELEMENT_BYTE_SIZE \<and>
     (\<forall>buf. length buf = HASH_ELEMENT_BYTE_SIZE \<longrightarrow> to_text cs buf \<noteq> [])"

text \<open>The hash module returns the text of a 32-byte digest, under the encoding asked for.\<close>

definition hash_contract :: "LiteLamport \<Rightarrow> bool" where
  "hash_contract L \<longleftrightarrow> (\<forall>m. digest_text (hashEncoding L) (sha256 L m (hashEncoding L)))"

definition hmac_contract :: "LiteLamport \<Rightarrow> bool" where
  "hmac_contract L \<longleftrightarrow>
     (\<forall>k m. digest_text (hashEncoding L) (hmacSha256 L k (seedEncoding L) m (hashEncoding L)))"

text \<open>\<open>JSON.parse\<close> gives back an array of strings that \<open>JSON.stringify\<close> wrote.\<close>

definition json_roundtrip :: "runtime \<Rightarrow> bool" where
  "json_roundtrip rt \<longleftrightarrow>
     (\<forall>raw. JSON_parse rt (JStr (JSON_stringify rt (array_of raw))) = Inr (array_of raw))"

text \<open>What a format needs for its decoder to undo its encoder.\<close>

fun format_ok :: "runtime \<Rightarrow> format \<Rightarrow> bool" where
  "format_ok rt FObject = True"
| "format_ok rt FJson = json_roundtrip rt"
| "format_ok rt FBuffer = True"
| "format_ok rt (FText cs) = lossless cs"

text \<open>A structured key or signature whose entries are each the text of 32 bytes.\<close>

definition canonical_entries :: "LiteLamport \<Rightarrow> string list \<Rightarrow> bool" where
  "canonical_entries L raw \<longleftrightarrow>
     list_all (\<lambda>e. digest_text (hashEncoding L) e \<and>
                   byte_length (hashEncoding L) e = HASH_ELEMENT_BYTE_SIZE) raw"

section \<open>Instances for concrete evaluation\<close>

text \<open>
  Stand-ins for the parameters, to run the definitions on concrete inputs: a hash that
  only looks at the length of its message (the empty message gets the all-zero digest), a
  runtime whose \<open>JSON\<close> knows nothing, and instances of the class over \<open>'hex'\<close>.
\<close>

definition demo_sha256 :: "string \<Rightarrow> charset \<Rightarrow> string" where
  "demo_sha256 message cs = to_text cs (replicate 32 (of_nat (length message)))"

definition demo_hmacSha256 :: "string \<Rightarrow> charset \<Rightarrow> string \<Rightarrow> charset \<Rightarrow> string" where
  "demo_hmacSha256 k kcs message cs =
     to_text cs (replicate 32 (of_nat (length (from_text kcs k) + length message)))"

definition demo_runtime :: runtime where
  "demo_runtime =
     \<lparr>JSON_stringify = (\<lambda>v. ''null''),
      JSON_parse = (\<lambda>v. Inl SyntaxError),
      Buffer_from_other = (\<lambda>v. case v of JBuf buf \<Rightarrow> Inr buf | _ \<Rightarrow> Inl TypeError)\<rparr>"

definition demo_instance :: "format \<Rightarrow> format \<Rightarrow> LiteLamport" where
  "demo_instance kf sf =
     \<lparr>keyFormat = kf, signatureFormat = sf, hashEncoding = hex, seedEncoding = hex,
      sha256 = demo_sha256, hmacSha256 = demo_hmacSha256\<rparr>"

definition hex_instance :: LiteLamport where
  "hex_instance = demo_instance (FText hex) (FText hex)"

definition buffer_instance :: LiteLamport where
  "buffer_instance = demo_instance FBuffer FBuffer"

definition object_instance :: LiteLamport where
  "object_instance = demo_instance FObject FObject"

text \<open>A private key under \<open>'hex'\<close>: entry \<open>i\<close> is the text of 32 bytes of value \<open>i mod 256\<close>.\<close>

definition demo_key :: "string list" where
  "demo_key = map (\<lambda>i. hex_toString (replicate 32 (of_nat i))) [0..<264]"

text \<open>
  A store with two array objects of the caller's: at address 0 the signature of the message
  \<open>hello\<close> under \<open>demo_key\<close>, at address 1 the public key of \<open>demo_key\<close>.
\<close>

definition demo_store :: store where
  "demo_store =
     [map JStr (signRaw object_instance ''hello'' demo_key),
      map JStr (getRawPublicKeyFromRawPrivateKey object_instance demo_key)]"

text \<open>A key of 264 entries, each 64 upper-case hex digits: 32 bytes \<open>0xAA\<close>.\<close>

definition upper_entry :: string where
  "upper_entry = replicate 64 (CHR ''A'')"

definition upper_key :: "string list" where
  "upper_key = replicate 264 upper_entry"

section \<open>Properties\<close>

subsection \<open>Basic facts\<close>

lemma js_index_nth: "i < length xs \<Longrightarrow> js_index xs i = Some (xs ! i)"
  by (simp add: js_index_def)

lemma js_index_None: "length xs \<le> i \<Longrightarrow> js_index xs i = None"
  by (simp add: js_index_def)

subsection \<open>The encoding \<open>'hex'\<close> loses nothing\<close>

lemma hex_value_digit: "n < 16 \<Longrightarrow> hex_value (hex_digit n) = Some n"
  by (auto simp: hex_value_def hex_digit_def Let_def)

lemma hex_toString_Cons:
  "hex_toString (b # buf) = hex_digit (unat b div 16) # hex_digit (unat b mod 16) # hex_toString buf"
  by (simp add: hex_toString_def)

lemma hex_toString_Nil: "hex_toString [] = []"
  by (simp add: hex_toString_def)

lemma unat_u8_div16: "unat (b :: u8) div 16 < 16"
proof -
  have "unat b < 256" using unsigned_less [of b, where ?'a = nat] by simp
  then show ?thesis by simp
qed

lemma hex_from_toString: "hex_from (hex_toString buf) = buf"
proof (induction buf)
  case Nil
  show ?case by (simp add: hex_toString_Nil)
next
  case (Cons b buf)
  show ?case
    by (simp add: hex_toString_Cons hex_value_digit unat_u8_div16 Cons.IH)
qed

lemma length_hex_toString: "length (hex_toString buf) = 2 * length buf"
  by (induction buf) (simp_all add: hex_toString_Cons hex_toString_Nil)

lemma lossless_hex: "lossless hex"
  by (simp add: lossless_def hex_def hex_from_toString)

lemma binary_safe_hex: "binary_safe hex"
  using lossless_hex
  by (simp add: binary_safe_def hex_def hex_byteLength_def length_hex_toString)

lemma entries_nonempty_hex: "entries_nonempty hex"
  by (auto simp: entries_nonempty_def hex_def hex_byteLength_def hex_toString_def)

subsection \<open>Bits and the checksum\<close>

lemma bit_of_byte: "unat (drop_bit k (w :: u8) AND 1) = (unat w div 2 ^ k) mod 2"
proof -
  have "unat (drop_bit k w AND 1) = unat (drop_bit k w) mod 2"
    by (simp add: and_one_eq unat_mod)
  also have "unat (drop_bit k w) = drop_bit k (unat w)"
    by (rule unat_drop_bit_eq)
  finally show ?thesis
    by (simp add: drop_bit_eq_div)
qed

lemma convertBufferToBitArray_spec: "convertBufferToBitArray buf = digestToBits_spec buf"
  by (simp add: convertBufferToBitArray_def digestToBits_spec_def bit_of_byte)

lemma convertBufferToBitArray_bits: "set (convertBufferToBitArray buf) \<subseteq> {0, 1}"
  by (auto simp: convertBufferToBitArray_def bit_of_byte)

lemma length_convertBufferToBitArray: "length (convertBufferToBitArray buf) = 8 * length buf"
  by (induction buf) (simp_all add: convertBufferToBitArray_def)

lemma foldl_checksum:
  "set bits \<subseteq> {0, 1} \<Longrightarrow>
   foldl (\<lambda>total bit. total + (bit XOR 1)) a bits = a + length (filter (\<lambda>b. b = 0) bits)"
  by (induction bits arbitrary: a) auto

lemma checksumOf_zeros:
  "set bits \<subseteq> {0, 1} \<Longrightarrow> checksumOf bits = length (filter (\<lambda>b. b = 0) bits)"
  using foldl_checksum [of bits 0] by (simp add: checksumOf_def)

lemma sum_list_zeros:
  "set bits \<subseteq> {0, 1} \<Longrightarrow> (\<Sum>b\<leftarrow>bits. 1 - b) = length (filter (\<lambda>b. b = (0::nat)) bits)"
  by (induction bits) auto

lemma checksum_bits: "convertBufferToBitArray (checksumBufferOf c) = checksumToBits_spec (c mod 256)"
  by (simp add: convertBufferToBitArray_def checksumBufferOf_def checksumToBits_spec_def bit_of_byte unat_of_nat)

lemma length_checksumToBits: "length (checksumToBits_spec c) = 8"
  by (simp add: checksumToBits_spec_def)

lemma checksumOf_bitArray:
  "checksumOf (convertBufferToBitArray buf) = length (filter (\<lambda>b. b = 0) (convertBufferToBitArray buf))"
  by (rule checksumOf_zeros) (rule convertBufferToBitArray_bits)

lemma sum_list_bitArray:
  "(\<Sum>b\<leftarrow>convertBufferToBitArray buf. 1 - b) = length (filter (\<lambda>b. b = 0) (convertBufferToBitArray buf))"
  by (rule sum_list_zeros) (rule convertBufferToBitArray_bits)

lemma messageBitArrayOf_zeros:
  "messageBitArrayOf L message =
     (let digestBits = convertEncodedStringToBitArray L (sha256 L message (hashEncoding L))
      in digestBits @ checksumToBits_spec (length (filter (\<lambda>b. b = 0) digestBits) mod 256))"
  by (simp add: messageBitArrayOf_def Let_def checksum_bits checksumOf_bitArray
      convertEncodedStringToBitArray_def)

lemma messageBitArrayOf_spec: "messageBitArrayOf L message = messageBitVector_spec L message"
proof -
  have "computeChecksum_spec (convertBufferToBitArray buf) =
        length (filter (\<lambda>b. b = 0) (convertBufferToBitArray buf)) mod 256" for buf
    unfolding computeChecksum_spec_def by (simp only: sum_list_bitArray)
  then show ?thesis
    by (simp add: messageBitArrayOf_zeros messageBitVector_spec_def Let_def
        convertEncodedStringToBitArray_def Hash_spec_def convertBufferToBitArray_spec [symmetric])
qed

lemma length_messageBitArrayOf:
  "length (messageBitArrayOf L message) = 8 * length (Hash_spec L message) + 8"
  by (simp add: messageBitArrayOf_zeros Let_def convertEncodedStringToBitArray_def Hash_spec_def
      length_convertBufferToBitArray length_checksumToBits)


subsection \<open>C4: the checksum byte\<close>




subsection \<open>C5 and C6: keys from a seed\<close>

lemma length_generateRandomArrayFromSeed:
  "length (generateRandomArrayFromSeed L n seed ix) = n"
  by (simp add: generateRandomArrayFromSeed_def)


lemma length_getRawPublicKey:
  "length (getRawPublicKeyFromRawPrivateKey L raw) = length raw"
  by (simp add: getRawPublicKeyFromRawPrivateKey_def)

lemma nth_getRawPublicKey:
  "i < length raw \<Longrightarrow>
   getRawPublicKeyFromRawPrivateKey L raw ! i = sha256 L (raw ! i) (hashEncoding L)"
  by (simp add: getRawPublicKeyFromRawPrivateKey_def)


lemma hex_from_zeros: "hex_from (replicate (2 * n) (CHR ''0'')) = replicate n 0"
  by (induction n) (simp_all add: hex_value_def)




subsection \<open>C2: verification never fails with an error\<close>

text \<open>How the decoders fail: wrong shape, wrong length, wrong element size, parse failure.\<close>

lemma validateRawSignatureFormat_Inr_iff:
  "validateRawSignatureFormat L v = Inr u \<longleftrightarrow>
     (\<exists>items. v = JArr items \<and> length items \<le> KEY_SIG_ENTRY_COUNT \<and> list_all (validItem L) items)"
  by (cases v) (auto simp: validateRawSignatureFormat_def)

lemma validateRawKeyFormat_Inr_iff:
  "validateRawKeyFormat L v = Inr u \<longleftrightarrow>
     (\<exists>items. v = JArr items \<and> length items = KEY_SIG_ENTRY_COUNT \<and> list_all (validItem L) items)"
  by (cases v) (auto simp: validateRawKeyFormat_def)

lemma decodeSignatureFromBuffer_Inr_iff:
  "(\<exists>raw. decodeSignatureFromBuffer L v = Inr raw) \<longleftrightarrow>
     (\<exists>buf. v = JBuf buf \<and> length buf \<le> KEY_SIG_ENTRY_COUNT * HASH_ELEMENT_BYTE_SIZE
            \<and> length buf mod HASH_ELEMENT_BYTE_SIZE = 0)"
  by (cases v) (auto simp: decodeSignatureFromBuffer_def Let_def)

lemma decodeKeyFromBuffer_Inr_iff:
  "(\<exists>raw. decodeKeyFromBuffer L v = Inr raw) \<longleftrightarrow>
     (\<exists>buf. v = JBuf buf \<and> length buf = KEY_SIG_ENTRY_COUNT * HASH_ELEMENT_BYTE_SIZE)"
  by (cases v) (auto simp: decodeKeyFromBuffer_def Let_def)

lemma decodeSignature_json_parse_failure:
  "signatureFormat L = FJson \<Longrightarrow> JSON_parse rt v = Inl e \<Longrightarrow> decodeSignature L rt v = Inl e"
  by (simp add: decodeSignature_def)

lemma decodeKey_json_parse_failure:
  "keyFormat L = FJson \<Longrightarrow> JSON_parse rt v = Inl e \<Longrightarrow> decodeKey L rt v = Inl e"
  by (simp add: decodeKey_def)

lemma decodeSignature_object_not_array:
  "signatureFormat L = FObject \<Longrightarrow> (\<forall>items. v \<noteq> JArr items) \<Longrightarrow>
   decodeSignature L rt v = Inl SignatureNotArray"
  by (cases v) (simp_all add: decodeSignature_def validateRawSignatureFormat_def)

lemma decodeSignature_object_too_long:
  "signatureFormat L = FObject \<Longrightarrow> KEY_SIG_ENTRY_COUNT < length items \<Longrightarrow>
   decodeSignature L rt (JArr items) = Inl SignatureInvalidLength"
  by (simp add: decodeSignature_def validateRawSignatureFormat_def)



lemma decodeKey_buffer_wrong_length:
  "keyFormat L = FBuffer \<Longrightarrow> length buf \<noteq> KEY_SIG_ENTRY_COUNT * HASH_ELEMENT_BYTE_SIZE \<Longrightarrow>
   decodeKey L rt (JBuf buf) = Inl KeyBufferInvalidLength"
  by (simp add: decodeKey_def decodeKeyFromBuffer_def)



subsection \<open>Decoding what was encoded\<close>

lemma length_concat_chunks:
  "\<forall>c \<in> set chunks. length c = n \<Longrightarrow> length (concat chunks) = length chunks * n"
  by (induction chunks) simp_all

lemma slices_of_concat:
  "\<forall>c \<in> set chunks. length c = n \<Longrightarrow>
   map (\<lambda>i. slice (concat chunks) (i * n) (i * n + n)) [0..<length chunks] = chunks"
proof (induction chunks)
  case Nil
  show ?case by simp
next
  case (Cons c chunks)
  have len: "length c = n" using Cons.prems by simp
  have rest: "map (\<lambda>i. slice (concat chunks) (i * n) (i * n + n)) [0..<length chunks] = chunks"
    using Cons by simp
  have shift: "slice (concat (c # chunks)) (Suc i * n) (Suc i * n + n) =
               slice (concat chunks) (i * n) (i * n + n)" for i
    using len by (simp add: slice_def)
  have first: "slice (concat (c # chunks)) (0 * n) (0 * n + n) = c"
    using len by (simp add: slice_def)
  have "[0..<length (c # chunks)] = 0 # map Suc [0..<length chunks]"
    by (simp add: upt_conv_Cons map_Suc_upt del: upt_Suc)
  then have "map (\<lambda>i. slice (concat (c # chunks)) (i * n) (i * n + n)) [0..<length (c # chunks)] =
      slice (concat (c # chunks)) (0 * n) (0 * n + n)
      # map (\<lambda>i. slice (concat (c # chunks)) (Suc i * n) (Suc i * n + n)) [0..<length chunks]"
    by (simp add: comp_def del: upt_Suc)
  also have "\<dots> = c # chunks"
    unfolding first shift rest ..
  finally show ?case .
qed

lemma strings_of_array_of: "strings_of (array_of raw) = raw"
  by (simp add: strings_of_def array_of_def string_of_item_def comp_def)

lemma canonical_entries_valid:
  "canonical_entries L raw \<Longrightarrow> list_all (validItem L) (map JStr raw)"
  by (simp add: canonical_entries_def validItem_def list_all_iff)

lemma canonical_entries_chunks:
  "canonical_entries L raw \<Longrightarrow>
   \<forall>c \<in> set (map (from_text (hashEncoding L)) raw). length c = HASH_ELEMENT_BYTE_SIZE"
  by (auto simp: canonical_entries_def digest_text_def list_all_iff)

lemma canonical_entries_text:
  "canonical_entries L raw \<Longrightarrow>
   map (to_text (hashEncoding L)) (map (from_text (hashEncoding L)) raw) = raw"
  by (induction raw) (simp_all add: canonical_entries_def digest_text_def)

lemma decode_slices_canonical:
  assumes "canonical_entries L raw"
  shows "map (\<lambda>i. to_text (hashEncoding L)
                   (slice (concat (map (from_text (hashEncoding L)) raw)) (i * 32) (i * 32 + 32)))
           [0..<length raw] = raw"
proof -
  let ?chunks = "map (from_text (hashEncoding L)) raw"
  have "map (\<lambda>i. slice (concat ?chunks) (i * 32) (i * 32 + 32)) [0..<length ?chunks] = ?chunks"
    by (rule slices_of_concat) (use assms canonical_entries_chunks in blast)
  then have "map (to_text (hashEncoding L))
               (map (\<lambda>i. slice (concat ?chunks) (i * 32) (i * 32 + 32)) [0..<length raw]) =
             map (to_text (hashEncoding L)) ?chunks"
    by simp
  then show ?thesis
    using canonical_entries_text [OF assms] by (simp add: comp_def)
qed

lemma decodeKeyFromBuffer_encode:
  assumes "canonical_entries L raw" and "length raw = KEY_SIG_ENTRY_COUNT"
  shows "decodeKeyFromBuffer L (JBuf (encodeKeyToBuffer L raw)) = Inr raw"
proof -
  have len: "length (concat (map (from_text (hashEncoding L)) raw)) = length raw * 32"
    using length_concat_chunks [OF canonical_entries_chunks [OF assms(1)]] by simp
  show ?thesis
    using decode_slices_canonical [OF assms(1)] assms(2) len
    by (simp add: decodeKeyFromBuffer_def encodeKeyToBuffer_def Let_def)
qed

lemma decodeSignatureFromBuffer_encode:
  assumes "canonical_entries L raw" and "length raw \<le> KEY_SIG_ENTRY_COUNT"
  shows "decodeSignatureFromBuffer L (JBuf (encodeSignatureToBuffer L raw)) = Inr raw"
proof -
  have len: "length (concat (map (from_text (hashEncoding L)) raw)) = length raw * 32"
    using length_concat_chunks [OF canonical_entries_chunks [OF assms(1)]] by simp
  show ?thesis
    using decode_slices_canonical [OF assms(1)] assms(2) len
    by (simp add: decodeSignatureFromBuffer_def encodeSignatureToBuffer_def Let_def)
qed

lemma decodeKey_encodeKey:
  assumes "canonical_entries L raw" and "length raw = KEY_SIG_ENTRY_COUNT"
    and "format_ok rt (keyFormat L)"
  shows "decodeKey L rt (encodeKey L rt raw) = Inr raw"
proof (cases "keyFormat L")
  case FObject
  have "validateRawKeyFormat L (array_of raw) = Inr ()"
    using assms(2) canonical_entries_valid [OF assms(1)]
    by (simp add: validateRawKeyFormat_def array_of_def)
  then show ?thesis
    using FObject by (simp add: decodeKey_def encodeKey_def strings_of_array_of)
next
  case FJson
  have "validateRawKeyFormat L (array_of raw) = Inr ()"
    using assms(2) canonical_entries_valid [OF assms(1)]
    by (simp add: validateRawKeyFormat_def array_of_def)
  moreover have "JSON_parse rt (JStr (JSON_stringify rt (array_of raw))) = Inr (array_of raw)"
    using assms(3) FJson by (simp add: json_roundtrip_def)
  ultimately show ?thesis
    using FJson by (simp add: decodeKey_def encodeKey_def strings_of_array_of)
next
  case FBuffer
  then show ?thesis
    using decodeKeyFromBuffer_encode [OF assms(1,2)] by (simp add: decodeKey_def encodeKey_def)
next
  case (FText cs)
  then have "from_text cs (to_text cs (encodeKeyToBuffer L raw)) = encodeKeyToBuffer L raw"
    using assms(3) by (simp add: lossless_def)
  then show ?thesis
    using FText decodeKeyFromBuffer_encode [OF assms(1,2)]
    by (simp add: decodeKey_def encodeKey_def Buffer_from_def)
qed

lemma decodeSignature_encodeSignature:
  assumes "canonical_entries L raw" and "length raw \<le> KEY_SIG_ENTRY_COUNT"
    and "format_ok rt (signatureFormat L)"
  shows "decodeSignature L rt (encodeSignature L rt raw) = Inr raw"
proof (cases "signatureFormat L")
  case FObject
  have "validateRawSignatureFormat L (array_of raw) = Inr ()"
    using assms(2) canonical_entries_valid [OF assms(1)]
    by (simp add: validateRawSignatureFormat_def array_of_def)
  then show ?thesis
    using FObject by (simp add: decodeSignature_def encodeSignature_def strings_of_array_of)
next
  case FJson
  have "validateRawSignatureFormat L (array_of raw) = Inr ()"
    using assms(2) canonical_entries_valid [OF assms(1)]
    by (simp add: validateRawSignatureFormat_def array_of_def)
  moreover have "JSON_parse rt (JStr (JSON_stringify rt (array_of raw))) = Inr (array_of raw)"
    using assms(3) FJson by (simp add: json_roundtrip_def)
  ultimately show ?thesis
    using FJson by (simp add: decodeSignature_def encodeSignature_def strings_of_array_of)
next
  case FBuffer
  then show ?thesis
    using decodeSignatureFromBuffer_encode [OF assms(1,2)]
    by (simp add: decodeSignature_def encodeSignature_def)
next
  case (FText cs)
  then have "from_text cs (to_text cs (encodeSignatureToBuffer L raw)) = encodeSignatureToBuffer L raw"
    using assms(3) by (simp add: lossless_def)
  then show ?thesis
    using FText decodeSignatureFromBuffer_encode [OF assms(1,2)]
    by (simp add: decodeSignature_def encodeSignature_def Buffer_from_def)
qed

subsection \<open>C7: decoding an encoded key or signature\<close>

lemma hex_from_upper: "hex_from (replicate (2 * n) (CHR ''A'')) = replicate n 0xAA"
  by (induction n) (simp_all add: hex_value_def)

lemma hex_digit_0: "hex_digit 0 = CHR ''0''"
  by code_simp

lemma hex_digit_10: "hex_digit 10 = CHR ''a''"
  by code_simp

lemma hex_toString_AA: "hex_toString (replicate n 0xAA) = replicate (2 * n) (CHR ''a'')"
  by (induction n) (simp_all add: hex_toString_Nil hex_toString_Cons hex_digit_10)

lemma hex_toString_zeros: "hex_toString (replicate n 0) = replicate (2 * n) (CHR ''0'')"
  by (induction n) (simp_all add: hex_toString_Nil hex_toString_Cons hex_digit_0)

lemma canonical_zero_entries:
  "hashEncoding L = hex \<Longrightarrow> canonical_entries L (replicate n (replicate 64 (CHR ''0'')))"
  using hex_from_zeros [of 32] hex_toString_zeros [of 32]
  by (simp add: canonical_entries_def list_all_iff digest_text_def hex_def hex_byteLength_def)

text \<open>
  Claim C7, as the code has it. The decoders undo the encoders on a structured key (264
  entries) or signature (at most 264 entries) whose every entry is the text of its own 32
  bytes, as every entry is that the class itself produces; the format must itself lose
  nothing (\<open>JSON.parse\<close> undoes \<open>JSON.stringify\<close>; the character encoding of a text format
  decodes what it encoded). Entries that only measure 32 bytes are not enough: see the
  counterexample below.
\<close>

theorem decode_encode_canonical:
  assumes "canonical_entries L raw"
  shows "(length raw = KEY_SIG_ENTRY_COUNT \<and> format_ok rt (keyFormat L)
            \<longrightarrow> decodeKey L rt (encodeKey L rt raw) = Inr raw)
       \<and> (length raw \<le> KEY_SIG_ENTRY_COUNT \<and> format_ok rt (signatureFormat L)
            \<longrightarrow> decodeSignature L rt (encodeSignature L rt raw) = Inr raw)"
  using assms decodeKey_encodeKey decodeSignature_encodeSignature by blast

theorem decode_encode_canonical_witness:
  "decodeKey hex_instance demo_runtime
     (encodeKey hex_instance demo_runtime (replicate 264 (replicate 64 (CHR ''0'')))) =
     Inr (replicate 264 (replicate 64 (CHR ''0'')))
   \<and> decodeSignature object_instance demo_runtime
     (encodeSignature object_instance demo_runtime (replicate 5 (replicate 64 (CHR ''0'')))) =
     Inr (replicate 5 (replicate 64 (CHR ''0'')))"
proof -
  have h: "hashEncoding hex_instance = hex" "hashEncoding object_instance = hex"
    by (simp_all add: hex_instance_def object_instance_def demo_instance_def)
  have f: "format_ok demo_runtime (keyFormat hex_instance)"
    "format_ok demo_runtime (signatureFormat object_instance)"
    using lossless_hex by (simp_all add: hex_instance_def object_instance_def demo_instance_def)
  from decode_encode_canonical [OF canonical_zero_entries [OF h(1), of 264], of demo_runtime]
    decode_encode_canonical [OF canonical_zero_entries [OF h(2), of 5], of demo_runtime] f
  show ?thesis
    by simp
qed

text \<open>
  The claim as stated fails. Under the hash encoding \<open>'hex'\<close> a key of 264 entries of 64
  upper-case digits passes the validator (each entry measures 32 bytes and decodes to 32
  bytes), yet through the \<open>'buffer'\<close> format it comes back in lower case.
\<close>

theorem decode_encode_counterexample:
  "length upper_key = KEY_SIG_ENTRY_COUNT
   \<and> validateRawKeyFormat buffer_instance (array_of upper_key) = Inr ()
   \<and> list_all (\<lambda>e. length (from_text (hashEncoding buffer_instance) e) = HASH_ELEMENT_BYTE_SIZE) upper_key
   \<and> decodeKey buffer_instance demo_runtime (encodeKey buffer_instance demo_runtime upper_key) =
       Inr (replicate 264 (replicate 64 (CHR ''a'')))
   \<and> decodeKey buffer_instance demo_runtime (encodeKey buffer_instance demo_runtime upper_key) \<noteq>
       Inr upper_key"
proof -
  have enc: "hashEncoding buffer_instance = hex" "keyFormat buffer_instance = FBuffer"
    by (simp_all add: buffer_instance_def demo_instance_def)
  have bytes: "hex_from upper_entry = replicate 32 0xAA"
    using hex_from_upper [of 32] by (simp add: upper_entry_def)
  have valid: "validateRawKeyFormat buffer_instance (array_of upper_key) = Inr ()"
    by (simp add: validateRawKeyFormat_def array_of_def upper_key_def list_all_iff validItem_def
        enc hex_def hex_byteLength_def upper_entry_def)
  have sizes: "list_all (\<lambda>e. length (from_text (hashEncoding buffer_instance) e) = 32) upper_key"
    by (simp add: upper_key_def list_all_iff enc hex_def bytes)
  let ?chunks = "replicate 264 (replicate 32 (0xAA :: u8))"
  have buf: "encodeKeyToBuffer buffer_instance upper_key = concat ?chunks"
    by (simp add: encodeKeyToBuffer_def upper_key_def enc hex_def bytes)
  have sl: "map (\<lambda>i. slice (concat ?chunks) (i * 32) (i * 32 + 32)) [0..<length ?chunks] = ?chunks"
    by (rule slices_of_concat) simp
  have "map (hex_toString \<circ> (\<lambda>i. slice (concat ?chunks) (i * 32) (i * 32 + 32))) [0..<264] =
        map hex_toString ?chunks"
    using sl by (simp only: map_map [symmetric] length_replicate)
  then have slices: "map (\<lambda>i. hex_toString (slice (concat ?chunks) (i * 32) (i * 32 + 32))) [0..<264] =
        replicate 264 (replicate 64 (CHR ''a''))"
    using hex_toString_AA [of 32] by (simp add: comp_def)
  have len: "length (concat ?chunks) = 264 * 32"
    using length_concat_chunks [of ?chunks 32] by simp
  have dec: "decodeKey buffer_instance demo_runtime (encodeKey buffer_instance demo_runtime upper_key) =
      Inr (replicate 264 (replicate 64 (CHR ''a'')))"
    using slices len
    by (simp add: decodeKey_def encodeKey_def enc decodeKeyFromBuffer_def buf Let_def hex_def)
  have "replicate 264 (replicate 64 (CHR ''a'')) \<noteq> upper_key"
    by (simp add: upper_key_def upper_entry_def)
  with dec valid sizes show ?thesis
    by (simp add: upper_key_def)
qed

subsection \<open>The walk of \<open>verify\<close>, from the front\<close>

lemma verifyEvery_consumeFront:
  "verifyEvery L inverted pk steps = consumeFront L (rev inverted) pk steps"
proof (induction steps arbitrary: inverted)
  case Nil
  show ?case by simp
next
  case (Cons step steps)
  obtain index b where step: "step = (index, b)"
    by (cases step)
  show ?case
  proof (cases inverted rule: rev_cases)
    case Nil
    then show ?thesis
      using Cons.IH [of "[]"] by (simp add: step)
  next
    case (snoc front x)
    then show ?thesis
      using Cons.IH [of front] Cons.IH [of inverted] by (auto simp: step Let_def)
  qed
qed

lemma verifyRaw_consumeFront:
  "verifyRaw L message sig pk = consumeFront L sig pk (enumerate 0 (messageBitArrayOf L message))"
  by (simp add: verifyRaw_def Let_def verifyEvery_consumeFront)

text \<open>The positions of the 1-bits among numbered bits.\<close>

lemma ones_enumerate:
  "map fst (filter (\<lambda>(i, b). b \<noteq> 0) (enumerate n bits)) =
   filter (\<lambda>i. bits ! (i - n) \<noteq> 0) [n..<n + length (bits :: nat list)]"
proof (induction bits arbitrary: n)
  case Nil
  show ?case by simp
next
  case (Cons b bits)
  let ?P = "\<lambda>(i, b). b \<noteq> (0::nat)"
  let ?r = "[Suc n..<Suc n + length bits]"
  have shift: "(b # bits) ! (i - n) = bits ! (i - Suc n)" if "Suc n \<le> i" for i
    using that by (simp add: nth_Cons')
  have tail: "filter (\<lambda>i. bits ! (i - Suc n) \<noteq> 0) ?r = filter (\<lambda>i. (b # bits) ! (i - n) \<noteq> 0) ?r"
    by (rule filter_cong [OF refl]) (auto simp: shift simp del: upt_Suc)
  have range: "[n..<n + length (b # bits)] = n # ?r"
    by (simp add: upt_conv_Cons del: upt_Suc)
  have "map fst (filter ?P (enumerate n (b # bits))) =
        (if b \<noteq> 0 then [n] else []) @ map fst (filter ?P (enumerate (Suc n) bits))"
    by simp
  also have "\<dots> = (if b \<noteq> 0 then [n] else []) @ filter (\<lambda>i. bits ! (i - Suc n) \<noteq> 0) ?r"
    by (simp only: Cons.IH)
  also have "\<dots> = (if b \<noteq> 0 then [n] else []) @ filter (\<lambda>i. (b # bits) ! (i - n) \<noteq> 0) ?r"
    by (simp only: tail)
  also have "\<dots> = filter (\<lambda>i. (b # bits) ! (i - n) \<noteq> 0) (n # ?r)"
    by simp
  finally show ?case
    by (simp only: range)
qed

lemma onePositions_enumerate:
  "onePositions bits = map fst (filter (\<lambda>(i, b). b \<noteq> 0) (enumerate 0 bits))"
proof -
  have "map fst (filter (\<lambda>(i, b). b \<noteq> 0) (enumerate 0 bits)) =
        filter (\<lambda>i. bits ! (i - 0) \<noteq> 0) [0..<0 + length bits]"
    by (rule ones_enumerate)
  then show ?thesis
    by (simp add: onePositions_def)
qed

lemma length_onePositions: "length (onePositions bits) = popcount bits"
proof -
  have "length (filter (\<lambda>(i, b). b \<noteq> 0) (enumerate n bits)) = length (filter (\<lambda>b. b \<noteq> 0) bits)" for n
    by (induction bits arbitrary: n) simp_all
  then show ?thesis
    by (simp add: onePositions_enumerate popcount_def)
qed

lemma popcount_le: "popcount bits \<le> length bits"
  by (simp add: popcount_def)

lemma onePositions_bound: "i \<in> set (onePositions bits) \<Longrightarrow> i < length bits"
  by (simp add: onePositions_def)

lemma consumeFront_iff:
  "consumeFront L sig pk steps \<longleftrightarrow>
     (let ones = map fst (filter (\<lambda>(i, b). b \<noteq> 0) steps) in
      length ones \<le> length sig
      \<and> list_all2 (\<lambda>i entry. js_index pk i = Some (sha256 L entry (hashEncoding L)))
           ones (take (length ones) sig))"
proof (induction steps arbitrary: sig)
  case Nil
  show ?case by simp
next
  case (Cons step steps)
  obtain index b where step: "step = (index, b)"
    by (cases step)
  show ?case
  proof (cases "b = 0")
    case True
    then show ?thesis
      using Cons.IH [of sig] by (simp add: step)
  next
    case False
    show ?thesis
    proof (cases sig)
      case Nil
      then show ?thesis
        using False by (simp add: step)
    next
      case (Cons entry sig')
      then show ?thesis
        using False Cons.IH [of sig'] by (auto simp: step Let_def)
    qed
  qed
qed

lemma verifyRaw_iff:
  "verifyRaw L message sig pk \<longleftrightarrow>
     (let ones = onePositions (messageBitArrayOf L message) in
      length ones \<le> length sig
      \<and> (\<forall>j < length ones. js_index pk (ones ! j) = Some (sha256 L (sig ! j) (hashEncoding L))))"
proof -
  let ?ones = "onePositions (messageBitArrayOf L message)"
  have "list_all2 (\<lambda>i entry. js_index pk i = Some (sha256 L entry (hashEncoding L)))
          ?ones (take (length ?ones) sig) \<longleftrightarrow>
        (\<forall>j < length ?ones. js_index pk (?ones ! j) = Some (sha256 L (sig ! j) (hashEncoding L)))"
    if "length ?ones \<le> length sig"
    using that by (auto simp: list_all2_conv_all_nth)
  then show ?thesis
    unfolding verifyRaw_consumeFront consumeFront_iff onePositions_enumerate [symmetric] Let_def
    by blast
qed

subsection \<open>What a decoded key or signature looks like\<close>

lemma valid_items_strings:
  "list_all (validItem L) items \<Longrightarrow>
   map JStr (map string_of_item items) = items
   \<and> list_all (\<lambda>s. byte_length (hashEncoding L) s = HASH_ELEMENT_BYTE_SIZE) (map string_of_item items)"
  by (induction items) (auto simp: validItem_def string_of_item_def split: jsval.splits)

lemma validateRawKeyFormat_strings:
  assumes "validateRawKeyFormat L v = Inr u"
  shows "length (strings_of v) = KEY_SIG_ENTRY_COUNT
       \<and> list_all (\<lambda>s. byte_length (hashEncoding L) s = HASH_ELEMENT_BYTE_SIZE) (strings_of v)
       \<and> v = array_of (strings_of v)"
proof -
  from assms obtain items where v: "v = JArr items" and l: "length items = KEY_SIG_ENTRY_COUNT"
    and a: "list_all (validItem L) items"
    unfolding validateRawKeyFormat_Inr_iff by blast
  show ?thesis
    using valid_items_strings [OF a] l by (simp add: v strings_of_def array_of_def)
qed

lemma validateRawSignatureFormat_strings:
  assumes "validateRawSignatureFormat L v = Inr u"
  shows "length (strings_of v) \<le> KEY_SIG_ENTRY_COUNT
       \<and> list_all (\<lambda>s. byte_length (hashEncoding L) s = HASH_ELEMENT_BYTE_SIZE) (strings_of v)
       \<and> v = array_of (strings_of v)"
proof -
  from assms obtain items where v: "v = JArr items" and l: "length items \<le> KEY_SIG_ENTRY_COUNT"
    and a: "list_all (validItem L) items"
    unfolding validateRawSignatureFormat_Inr_iff by blast
  show ?thesis
    using valid_items_strings [OF a] l by (simp add: v strings_of_def array_of_def)
qed

lemma length_slice_full:
  "i * 32 + 32 \<le> length buf \<Longrightarrow> length (slice buf (i * 32) (i * 32 + 32)) = 32"
  by (simp add: slice_def)

lemma decodeKeyFromBuffer_shape:
  assumes "decodeKeyFromBuffer L v = Inr raw"
  shows "length raw = KEY_SIG_ENTRY_COUNT
       \<and> (\<forall>s \<in> set raw. \<exists>bytes. length bytes = HASH_ELEMENT_BYTE_SIZE \<and> s = to_text (hashEncoding L) bytes)"
proof -
  from assms obtain buf where v: "v = JBuf buf" and l: "length buf = 264 * 32"
    using decodeKeyFromBuffer_Inr_iff [of L v] by auto
  have raw: "raw = map (\<lambda>i. to_text (hashEncoding L) (slice buf (i * 32) (i * 32 + 32))) [0..<264]"
    using assms l by (simp add: v decodeKeyFromBuffer_def Let_def)
  have "\<exists>bytes. length bytes = 32 \<and> s = to_text (hashEncoding L) bytes" if "s \<in> set raw" for s
  proof -
    from that obtain i where i: "i < 264" and s: "s = to_text (hashEncoding L) (slice buf (i * 32) (i * 32 + 32))"
      unfolding raw by auto
    have "length (slice buf (i * 32) (i * 32 + 32)) = 32"
      by (rule length_slice_full) (use i l in simp)
    with s show ?thesis by blast
  qed
  then show ?thesis
    by (simp add: raw)
qed

lemma decodeSignatureFromBuffer_shape:
  assumes "decodeSignatureFromBuffer L v = Inr raw"
  shows "length raw \<le> KEY_SIG_ENTRY_COUNT
       \<and> (\<forall>s \<in> set raw. \<exists>bytes. length bytes = HASH_ELEMENT_BYTE_SIZE \<and> s = to_text (hashEncoding L) bytes)"
proof -
  from assms obtain buf where v: "v = JBuf buf" and l: "length buf \<le> 264 * 32"
    and m: "length buf mod 32 = 0"
    using decodeSignatureFromBuffer_Inr_iff [of L v] by auto
  have raw: "raw = map (\<lambda>i. to_text (hashEncoding L) (slice buf (i * 32) (i * 32 + 32)))
                     [0..<length buf div 32]"
    using assms l m by (simp add: v decodeSignatureFromBuffer_def Let_def)
  have "\<exists>bytes. length bytes = 32 \<and> s = to_text (hashEncoding L) bytes" if "s \<in> set raw" for s
  proof -
    from that obtain i where i: "i < length buf div 32"
      and s: "s = to_text (hashEncoding L) (slice buf (i * 32) (i * 32 + 32))"
      unfolding raw by auto
    have "Suc i \<le> length buf div 32"
      using i by simp
    then have "Suc i * 32 \<le> length buf div 32 * 32"
      by (rule mult_le_mono1)
    also have "\<dots> \<le> length buf"
      by simp
    finally have "length (slice buf (i * 32) (i * 32 + 32)) = 32"
      by (intro length_slice_full) simp
    with s show ?thesis by blast
  qed
  moreover have "length buf div 32 \<le> 264"
    using l by simp
  ultimately show ?thesis
    by (simp add: raw)
qed

lemma decodeKey_length:
  assumes "decodeKey L rt v = Inr raw"
  shows "length raw = KEY_SIG_ENTRY_COUNT"
proof (cases "keyFormat L")
  case FObject
  then show ?thesis
    using assms validateRawKeyFormat_strings [of L v, THEN conjunct1]
    by (auto simp: decodeKey_def split: sum.splits)
next
  case FJson
  then show ?thesis
    using assms validateRawKeyFormat_strings [of L, THEN conjunct1]
    by (auto simp: decodeKey_def split: sum.splits)
next
  case FBuffer
  then show ?thesis
    using assms decodeKeyFromBuffer_shape [of L v raw] by (simp add: decodeKey_def)
next
  case (FText cs)
  then show ?thesis
    using assms decodeKeyFromBuffer_shape [of L _ raw]
    by (auto simp: decodeKey_def split: sum.splits)
qed

lemma decodeSignature_length:
  assumes "decodeSignature L rt v = Inr raw"
  shows "length raw \<le> KEY_SIG_ENTRY_COUNT"
proof (cases "signatureFormat L")
  case FObject
  then show ?thesis
    using assms validateRawSignatureFormat_strings [of L v, THEN conjunct1]
    by (auto simp: decodeSignature_def split: sum.splits)
next
  case FJson
  then show ?thesis
    using assms validateRawSignatureFormat_strings [of L, THEN conjunct1]
    by (auto simp: decodeSignature_def split: sum.splits)
next
  case FBuffer
  then show ?thesis
    using assms decodeSignatureFromBuffer_shape [of L v raw] by (simp add: decodeSignature_def)
next
  case (FText cs)
  then show ?thesis
    using assms decodeSignatureFromBuffer_shape [of L _ raw]
    by (auto simp: decodeSignature_def split: sum.splits)
qed

lemma decodeKey_nonempty:
  assumes "decodeKey L rt v = Inr raw" and "entries_nonempty (hashEncoding L)"
  shows "[] \<notin> set raw"
proof -
  have measured: "[] \<notin> set xs"
    if "list_all (\<lambda>s. byte_length (hashEncoding L) s = HASH_ELEMENT_BYTE_SIZE) xs" for xs
    using that assms(2) by (auto simp: entries_nonempty_def list_all_iff)
  have written: "[] \<notin> set xs"
    if h: "\<forall>s \<in> set xs. \<exists>bytes. length bytes = HASH_ELEMENT_BYTE_SIZE \<and> s = to_text (hashEncoding L) bytes" for xs
  proof
    assume "[] \<in> set xs"
    with h obtain bytes where "length bytes = 32" and "to_text (hashEncoding L) bytes = []"
      by fastforce
    with assms(2) show False
      by (simp add: entries_nonempty_def)
  qed
  show ?thesis
  proof (cases "keyFormat L")
    case FObject
    then show ?thesis
      using assms(1) validateRawKeyFormat_strings [of L, THEN conjunct2, THEN conjunct1] measured
      by (auto simp: decodeKey_def split: sum.splits)
  next
    case FJson
    then show ?thesis
      using assms(1) validateRawKeyFormat_strings [of L, THEN conjunct2, THEN conjunct1] measured
      by (auto simp: decodeKey_def split: sum.splits)
  next
    case FBuffer
    then show ?thesis
      using assms(1) decodeKeyFromBuffer_shape [of L v raw] written
      by (simp add: decodeKey_def)
  next
    case (FText cs)
    then show ?thesis
      using assms(1) decodeKeyFromBuffer_shape [of L _ raw] written
      by (auto simp: decodeKey_def split: sum.splits)
  qed
qed

subsection \<open>The entries that \<open>sign\<close> selects\<close>

lemma select_steps:
  assumes "\<forall>(i, b) \<in> set steps. i < length raw" and "[] \<notin> set raw"
  shows "map the (filter truthy
           (map (\<lambda>(index, bit). if bit \<noteq> 0 then js_index raw index else None) steps)) =
         map ((!) raw) (map fst (filter (\<lambda>(i, b). b \<noteq> (0::nat)) steps))"
  using assms(1)
proof (induction steps)
  case Nil
  show ?case by simp
next
  case (Cons step steps)
  obtain i b where step: "step = (i, b)"
    by (cases step)
  have i: "i < length raw"
    using Cons.prems by (simp add: step)
  then have "raw ! i \<noteq> []"
    using assms(2) by (metis nth_mem)
  then show ?case
    using Cons i by (simp add: step js_index_def truthy_def)
qed

lemma selectEntries_onePositions:
  assumes "length bits \<le> length raw" and "[] \<notin> set raw"
  shows "selectEntries bits raw = map ((!) raw) (onePositions bits)"
proof -
  have "\<forall>(i, b) \<in> set (enumerate 0 bits). i < length raw"
    using assms(1) by (auto simp: in_set_enumerate_eq)
  from select_steps [OF this assms(2)] show ?thesis
    by (simp add: selectEntries_def onePositions_enumerate)
qed

subsection \<open>C3: what \<open>sign\<close> returns\<close>

lemma messageBitArrayOf_bits: "set (messageBitArrayOf L message) \<subseteq> {0, 1}"
proof -
  have "set (checksumToBits_spec c) \<subseteq> {0, 1}" for c
    by (auto simp: checksumToBits_spec_def)
  then show ?thesis
    using convertBufferToBitArray_bits
    by (simp add: messageBitArrayOf_zeros Let_def convertEncodedStringToBitArray_def)
qed

lemma set_onePositions_bits:
  "set bits \<subseteq> {0, 1} \<Longrightarrow> set (onePositions bits) = {i. i < length bits \<and> bits ! i = 1}"
proof -
  assume b: "set bits \<subseteq> {0, 1}"
  have "bits ! i \<noteq> 0 \<longleftrightarrow> bits ! i = 1" if "i < length bits" for i
  proof -
    have "bits ! i \<in> {0, 1}"
      using b nth_mem [OF that] by blast
    then show ?thesis
      by auto
  qed
  then show ?thesis
    by (auto simp: onePositions_def)
qed

lemma sorted_onePositions: "sorted_wrt (<) (onePositions bits)"
  by (simp add: onePositions_def sorted_wrt_filter)

text \<open>
  Claim C3. Let the private key decode to 264 entries, and the digest of the message have
  32 bytes. Then the bit array has 264 bits: the 256 bits of the digest, then the 8 bits of
  the checksum. \<open>sign\<close> returns the encoding of exactly the private entries at the
  positions of the 1-bits, in increasing order of position; their number is the number of
  1-bits, at most 264.
\<close>

theorem sign_selects_one_bit_entries:
  assumes "decodeKey L rt privateKey' = Inr privateKeyRaw"
    and "entries_nonempty (hashEncoding L)"
    and "length (Hash_spec L message) = HASH_ELEMENT_BYTE_SIZE"
  shows "length (messageBitArrayOf L message) = KEY_SIG_ENTRY_COUNT
       \<and> messageBitArrayOf L message =
           digestToBits_spec (Hash_spec L message)
           @ checksumToBits_spec (computeChecksum_spec (digestToBits_spec (Hash_spec L message)))
       \<and> length (digestToBits_spec (Hash_spec L message)) = 256
       \<and> sign L rt message privateKey' =
           Inr (encodeSignature L rt
                 (map (\<lambda>i. privateKeyRaw ! i) (onePositions (messageBitArrayOf L message))))
       \<and> sorted_wrt (<) (onePositions (messageBitArrayOf L message))
       \<and> set (onePositions (messageBitArrayOf L message)) =
           {i. i < KEY_SIG_ENTRY_COUNT \<and> messageBitArrayOf L message ! i = 1}
       \<and> length (signRaw L message privateKeyRaw) = popcount (messageBitArrayOf L message)
       \<and> length (signRaw L message privateKeyRaw) \<le> KEY_SIG_ENTRY_COUNT"
proof -
  let ?bits = "messageBitArrayOf L message"
  have len: "length ?bits = 264"
    using assms(3) by (simp add: length_messageBitArrayOf)
  have key: "length privateKeyRaw = 264"
    using assms(1) by (rule decodeKey_length)
  have ne: "[] \<notin> set privateKeyRaw"
    using assms(1,2) by (rule decodeKey_nonempty)
  have raw: "signRaw L message privateKeyRaw = map ((!) privateKeyRaw) (onePositions ?bits)"
    unfolding signRaw_def by (rule selectEntries_onePositions) (simp_all add: len key ne)
  have parts: "?bits = digestToBits_spec (Hash_spec L message)
      @ checksumToBits_spec (computeChecksum_spec (digestToBits_spec (Hash_spec L message)))"
    by (simp add: messageBitArrayOf_spec messageBitVector_spec_def Let_def)
  have digest: "length (digestToBits_spec (Hash_spec L message)) = 256"
    using assms(3) length_convertBufferToBitArray [of "Hash_spec L message"]
    by (simp add: convertBufferToBitArray_spec)
  have ones: "set (onePositions ?bits) = {i. i < 264 \<and> ?bits ! i = 1}"
    using set_onePositions_bits [OF messageBitArrayOf_bits, of L message] by (simp add: len)
  have count: "length (signRaw L message privateKeyRaw) = popcount ?bits"
    by (simp add: raw length_onePositions)
  have bound: "popcount ?bits \<le> 264"
    using popcount_le [of ?bits] by (simp add: len)
  have result: "sign L rt message privateKey' =
      Inr (encodeSignature L rt (map (\<lambda>i. privateKeyRaw ! i) (onePositions ?bits)))"
    using assms(1) by (simp add: sign_def raw)
  show ?thesis
    using len parts digest result sorted_onePositions [of ?bits] ones count bound
    by (simp only: simp_thms)
qed


lemma binary_safe_digest_text:
  assumes "binary_safe cs" and "length bytes = HASH_ELEMENT_BYTE_SIZE"
  shows "digest_text cs (to_text cs bytes)"
    and "byte_length cs (to_text cs bytes) = HASH_ELEMENT_BYTE_SIZE"
  using assms by (simp_all add: binary_safe_def lossless_def digest_text_def)

lemma binary_safe_entries_nonempty: "binary_safe cs \<Longrightarrow> entries_nonempty cs"
  by (auto simp: binary_safe_def entries_nonempty_def) (metis list.size(3) zero_neq_numeral)

lemma canonical_demo_key: "hashEncoding L = hex \<Longrightarrow> canonical_entries L demo_key"
  using binary_safe_digest_text [OF binary_safe_hex]
  by (auto simp: canonical_entries_def demo_key_def list_all_iff hex_def)

lemma length_demo_key: "length demo_key = KEY_SIG_ENTRY_COUNT"
  by (simp add: demo_key_def)

lemma demo_instance_fields:
  "keyFormat (demo_instance kf sf) = kf"
  "signatureFormat (demo_instance kf sf) = sf"
  "hashEncoding (demo_instance kf sf) = hex"
  "seedEncoding (demo_instance kf sf) = hex"
  "sha256 (demo_instance kf sf) = demo_sha256"
  "hmacSha256 (demo_instance kf sf) = demo_hmacSha256"
  by (simp_all add: demo_instance_def)

lemma demo_hash_length: "length (Hash_spec (demo_instance kf sf) message) = HASH_ELEMENT_BYTE_SIZE"
  by (simp add: Hash_spec_def demo_instance_fields demo_sha256_def hex_def hex_from_toString)

lemma demo_hash_contract: "hash_contract (demo_instance kf sf)"
  using binary_safe_digest_text(1) [OF binary_safe_hex]
  by (simp add: hash_contract_def demo_instance_fields demo_sha256_def)

lemma demo_hmac_contract: "hmac_contract (demo_instance kf sf)"
  using binary_safe_digest_text(1) [OF binary_safe_hex]
  by (simp add: hmac_contract_def demo_instance_fields demo_hmacSha256_def)

lemma decodeKey_demo_key:
  "decodeKey hex_instance demo_runtime (encodeKey hex_instance demo_runtime demo_key) = Inr demo_key"
  by (rule decodeKey_encodeKey)
    (simp_all add: canonical_demo_key length_demo_key hex_instance_def demo_instance_fields lossless_hex)

lemma popcount_hello: "popcount (messageBitArrayOf hex_instance ''hello'') = 66"
proof -
  have "from_text (hashEncoding hex_instance) (sha256 hex_instance ''hello'' (hashEncoding hex_instance))
        = replicate 32 5"
    by (simp add: hex_instance_def demo_instance_fields demo_sha256_def hex_def hex_from_toString)
  then have "messageBitArrayOf hex_instance ''hello'' =
      convertBufferToBitArray (replicate 32 5)
      @ convertBufferToBitArray (checksumBufferOf (checksumOf (convertBufferToBitArray (replicate 32 5))))"
    by (simp add: messageBitArrayOf_def Let_def convertEncodedStringToBitArray_def)
  also have "popcount \<dots> = 66"
    by code_simp
  finally show ?thesis .
qed

theorem sign_selects_one_bit_entries_witness:
  "sign hex_instance demo_runtime ''hello'' (encodeKey hex_instance demo_runtime demo_key) =
     Inr (encodeSignature hex_instance demo_runtime
           (map (\<lambda>i. demo_key ! i) (onePositions (messageBitArrayOf hex_instance ''hello''))))
   \<and> length (messageBitArrayOf hex_instance ''hello'') = 264
   \<and> length (signRaw hex_instance ''hello'' demo_key) = 66"
proof -
  have ne: "entries_nonempty (hashEncoding hex_instance)"
    by (simp add: hex_instance_def demo_instance_fields entries_nonempty_hex)
  have h: "length (Hash_spec hex_instance ''hello'') = HASH_ELEMENT_BYTE_SIZE"
    unfolding hex_instance_def by (rule demo_hash_length)
  note t = sign_selects_one_bit_entries [OF decodeKey_demo_key ne h]
  from t have a: "sign hex_instance demo_runtime ''hello'' (encodeKey hex_instance demo_runtime demo_key) =
     Inr (encodeSignature hex_instance demo_runtime
           (map (\<lambda>i. demo_key ! i) (onePositions (messageBitArrayOf hex_instance ''hello''))))"
    by blast
  from t have b: "length (messageBitArrayOf hex_instance ''hello'') = 264"
    by blast
  from t have "length (signRaw hex_instance ''hello'' demo_key) =
      popcount (messageBitArrayOf hex_instance ''hello'')"
    by blast
  then have c: "length (signRaw hex_instance ''hello'' demo_key) = 66"
    by (simp only: popcount_hello)
  from a b c show ?thesis
    by blast
qed

subsection \<open>C9: the reversed array against the forward cursor\<close>

lemma walk_spec_consumeFront:
  "i + n \<le> length bits \<Longrightarrow> i + n \<le> length pk \<Longrightarrow>
   walk_spec L bits sig pk i c n =
     consumeFront L (drop c sig) pk (enumerate i (take n (drop i bits)))"
proof (induction n arbitrary: i c)
  case 0
  show ?case by simp
next
  case (Suc n)
  have i: "i < length bits" "i < length pk"
    using Suc.prems by simp_all
  have bits: "take (Suc n) (drop i bits) = bits ! i # take n (drop (Suc i) bits)"
    using i(1) by (simp add: Cons_nth_drop_Suc [symmetric])
  have key: "js_index pk i = Some h \<longleftrightarrow> h = pk ! i" for h
    using i(2) by (auto simp: js_index_def)
  have step: "walk_spec L bits sig pk (Suc i) c' n =
      consumeFront L (drop c' sig) pk (enumerate (Suc i) (take n (drop (Suc i) bits)))" for c'
    by (rule Suc.IH) (use Suc.prems in simp_all)
  show ?case
  proof (cases "length sig \<le> c")
    case True
    then show ?thesis
      using step [of c] by (simp add: bits)
  next
    case False
    then have "drop c sig = sig ! c # drop (Suc c) sig"
      by (simp add: Cons_nth_drop_Suc)
    then show ?thesis
      using False step [of c] step [of "Suc c"] by (simp add: bits key)
  qed
qed

lemma walk_spec_verifyRaw:
  assumes "length (Hash_spec L message) = HASH_ELEMENT_BYTE_SIZE"
    and "length pk = KEY_SIG_ENTRY_COUNT"
  shows "walk_spec L (messageBitVector_spec L message) sig pk 0 0 264 = verifyRaw L message sig pk"
proof -
  have len: "length (messageBitArrayOf L message) = 264"
    using assms(1) by (simp add: length_messageBitArrayOf)
  have "walk_spec L (messageBitArrayOf L message) sig pk 0 0 264 =
        consumeFront L (drop 0 sig) pk (enumerate 0 (take 264 (drop 0 (messageBitArrayOf L message))))"
    by (rule walk_spec_consumeFront) (simp_all add: len assms(2))
  then show ?thesis
    by (simp add: len verifyRaw_consumeFront messageBitArrayOf_spec [symmetric])
qed

text \<open>
  Claim C9. For a hash module that returns 32-byte digests (so that the bit array has the
  264 positions the specification walks), \<open>verify\<close>, which reverses the decoded signature
  and pops its entries from the tail, returns the same boolean as the reference verifier
  of section 4.4, which walks positions 0 to 263 with a cursor that starts at the front of
  the signature, whatever the message, the signature and the public key are.
\<close>

theorem verify_refines_forward_cursor:
  assumes "length (Hash_spec L message) = HASH_ELEMENT_BYTE_SIZE"
  shows "verify L rt message signature publicKey' = verify_spec L rt message signature publicKey'"
proof (cases "decodeSignature L rt signature")
  case (Inl e)
  then show ?thesis
    by (simp add: verify_def verify_spec_def)
next
  case sig: (Inr sig)
  show ?thesis
  proof (cases "decodeKey L rt publicKey'")
    case (Inl e)
    then show ?thesis
      by (simp add: verify_def verify_spec_def sig)
  next
    case (Inr pk)
    then have "length pk = KEY_SIG_ENTRY_COUNT"
      by (rule decodeKey_length)
    from walk_spec_verifyRaw [OF assms this] show ?thesis
      by (simp add: verify_def verify_spec_def sig Inr)
  qed
qed

subsection \<open>Signatures that \<open>verify\<close> accepts and rejects\<close>

lemma set_selectEntries: "set (selectEntries bits raw) \<subseteq> set raw"
  by (auto simp: selectEntries_def js_index_def truthy_def split: if_splits option.splits)

lemma canonical_entries_subset:
  "canonical_entries L raw \<Longrightarrow> set raw' \<subseteq> set raw \<Longrightarrow> canonical_entries L raw'"
  by (auto simp: canonical_entries_def list_all_iff)

lemma canonical_entries_nonempty:
  assumes "canonical_entries L raw" and "entries_nonempty (hashEncoding L)"
  shows "[] \<notin> set raw"
  using assms by (auto simp: canonical_entries_def list_all_iff entries_nonempty_def)

lemma verifyRaw_accepts:
  assumes "length (messageBitArrayOf L message) \<le> length priv" and "[] \<notin> set priv"
  shows "verifyRaw L message (signRaw L message priv @ extra) (getRawPublicKeyFromRawPrivateKey L priv)"
proof -
  let ?bits = "messageBitArrayOf L message"
  let ?ones = "onePositions ?bits"
  let ?pub = "getRawPublicKeyFromRawPrivateKey L priv"
  have raw: "signRaw L message priv = map ((!) priv) ?ones"
    unfolding signRaw_def using assms by (rule selectEntries_onePositions)
  have "js_index ?pub (?ones ! j) = Some (sha256 L ((signRaw L message priv @ extra) ! j) (hashEncoding L))"
    if j: "j < length ?ones" for j
  proof -
    have "?ones ! j \<in> set ?ones"
      using j by (rule nth_mem)
    then have "?ones ! j < length ?bits"
      by (rule onePositions_bound)
    then have i: "?ones ! j < length priv"
      using assms(1) by simp
    have "(signRaw L message priv @ extra) ! j = priv ! (?ones ! j)"
      using j by (simp add: raw nth_append)
    then show ?thesis
      using i by (simp add: js_index_def length_getRawPublicKey nth_getRawPublicKey)
  qed
  then have all: "\<forall>j < length ?ones.
      js_index ?pub (?ones ! j) = Some (sha256 L ((signRaw L message priv @ extra) ! j) (hashEncoding L))"
    by blast
  have "length ?ones \<le> length (signRaw L message priv @ extra)"
    by (simp add: raw)
  with all show ?thesis
    unfolding verifyRaw_iff Let_def by blast
qed

lemma verifyRaw_rejects_short:
  assumes "length sig < popcount (messageBitArrayOf L message)"
  shows "\<not> verifyRaw L message sig pk"
  using assms unfolding verifyRaw_iff Let_def by (simp add: length_onePositions)

lemma hash_contract_length:
  "hash_contract L \<Longrightarrow> length (Hash_spec L message) = HASH_ELEMENT_BYTE_SIZE"
  by (simp add: hash_contract_def digest_text_def Hash_spec_def)

lemma digest_text_measured:
  assumes "binary_safe cs" and "digest_text cs s"
  shows "byte_length cs s = HASH_ELEMENT_BYTE_SIZE"
proof -
  from assms(2) have "s = to_text cs (from_text cs s)" and "length (from_text cs s) = 32"
    by (simp_all add: digest_text_def)
  then show ?thesis
    using assms(1) by (metis binary_safe_def)
qed

lemma canonical_public_key:
  assumes "binary_safe (hashEncoding L)" and "hash_contract L"
  shows "canonical_entries L (getRawPublicKeyFromRawPrivateKey L priv)"
  using assms digest_text_measured [OF assms(1)]
  by (simp add: canonical_entries_def list_all_iff getRawPublicKeyFromRawPrivateKey_def
      hash_contract_def)

lemma canonical_seed_key:
  assumes "binary_safe (hashEncoding L)" and "hmac_contract L"
  shows "canonical_entries L (generateRandomArrayFromSeed L n seed ix)"
proof -
  have "digest_text (hashEncoding L) e \<and> byte_length (hashEncoding L) e = HASH_ELEMENT_BYTE_SIZE"
    if "e \<in> set (generateRandomArrayFromSeed L n seed ix)" for e
  proof -
    from that obtain m where "e = hmacSha256 L seed (seedEncoding L) m (hashEncoding L)"
      by (auto simp: generateRandomArrayFromSeed_def)
    with assms(2) have "digest_text (hashEncoding L) e"
      unfolding hmac_contract_def by blast
    with digest_text_measured [OF assms(1)] show ?thesis
      by blast
  qed
  then show ?thesis
    by (simp add: canonical_entries_def list_all_iff)
qed

lemma generateRandomArray_shape:
  assumes "binary_safe (hashEncoding L)"
  shows "length (fst (generateRandomArray L n HASH_ELEMENT_BYTE_SIZE src)) = n
       \<and> canonical_entries L (fst (generateRandomArray L n HASH_ELEMENT_BYTE_SIZE src))"
proof (induction n arbitrary: src)
  case 0
  show ?case by (simp add: canonical_entries_def)
next
  case (Suc n)
  have "digest_text (hashEncoding L) (to_text (hashEncoding L) (stake 32 src))"
    "byte_length (hashEncoding L) (to_text (hashEncoding L) (stake 32 src)) = 32"
    using binary_safe_digest_text [OF assms, of "stake 32 src"] by simp_all
  then show ?case
    using Suc [of "sdrop 32 src"]
    by (simp add: randomBytes_def canonical_entries_def split_beta Let_def)
qed

text \<open>Signing with a key of the class's own making, and verifying the result.\<close>

lemma own_signature_verifies:
  assumes "canonical_entries L priv" and "length priv = KEY_SIG_ENTRY_COUNT"
    and "binary_safe (hashEncoding L)" and "hash_contract L"
    and "format_ok rt (keyFormat L)" and "format_ok rt (signatureFormat L)"
  shows "sign L rt message (encodeKey L rt priv) = Inr (encodeSignature L rt (signRaw L message priv))"
    and "decodeSignature L rt (encodeSignature L rt (signRaw L message priv @ extra)) =
           Inr (signRaw L message priv @ extra)
         \<Longrightarrow> verify L rt message (encodeSignature L rt (signRaw L message priv @ extra))
           (encodeKey L rt (getRawPublicKeyFromRawPrivateKey L priv))"
    and "decodeSignature L rt (encodeSignature L rt (signRaw L message priv)) =
           Inr (signRaw L message priv)"
proof -
  let ?pub = "getRawPublicKeyFromRawPrivateKey L priv"
  have bits: "length (messageBitArrayOf L message) = 264"
    using hash_contract_length [OF assms(4)] by (simp add: length_messageBitArrayOf)
  have ne: "[] \<notin> set priv"
    using assms(1) binary_safe_entries_nonempty [OF assms(3)] by (rule canonical_entries_nonempty)
  have dpriv: "decodeKey L rt (encodeKey L rt priv) = Inr priv"
    using assms(1,2,5) by (rule decodeKey_encodeKey)
  have dpub: "decodeKey L rt (encodeKey L rt ?pub) = Inr ?pub"
    by (rule decodeKey_encodeKey)
      (simp_all add: canonical_public_key assms length_getRawPublicKey)
  show "sign L rt message (encodeKey L rt priv) = Inr (encodeSignature L rt (signRaw L message priv))"
    by (simp add: sign_def dpriv)
  have acc: "verifyRaw L message (signRaw L message priv @ extra) ?pub"
    by (rule verifyRaw_accepts) (simp_all add: bits assms(2) ne)
  show "verify L rt message (encodeSignature L rt (signRaw L message priv @ extra))
           (encodeKey L rt ?pub)"
    if "decodeSignature L rt (encodeSignature L rt (signRaw L message priv @ extra)) =
           Inr (signRaw L message priv @ extra)"
    using that acc by (simp add: verify_def dpub)
  have sub: "canonical_entries L (signRaw L message priv)"
    using assms(1) set_selectEntries unfolding signRaw_def by (rule canonical_entries_subset)
  have "length (signRaw L message priv) = popcount (messageBitArrayOf L message)"
    unfolding signRaw_def
    by (subst selectEntries_onePositions) (simp_all add: bits assms(2) ne length_onePositions)
  then have "length (signRaw L message priv) \<le> 264"
    using popcount_le [of "messageBitArrayOf L message"] by (simp add: bits)
  with sub show "decodeSignature L rt (encodeSignature L rt (signRaw L message priv)) =
           Inr (signRaw L message priv)"
    using assms(6) by (intro decodeSignature_encodeSignature)
qed

subsection \<open>C1: a signature made with a generated key verifies\<close>

text \<open>
  Claim C1. Let the hash encoding be binary safe, the hash module return the text of a
  32-byte digest, and both formats lose nothing. For every message and every key pair that
  \<open>generateKeys\<close> returns (from whatever random source), or that \<open>generateKeysFromSeed\<close>
  returns when the keyed hash too returns the text of 32-byte digests, \<open>sign\<close> with the
  private key succeeds and \<open>verify\<close> accepts its signature under the public key.
\<close>

theorem verify_accepts_own_signature:
  assumes "binary_safe (hashEncoding L)" and "hash_contract L"
    and "format_ok rt (keyFormat L)" and "format_ok rt (signatureFormat L)"
    and "generateKeys L rt src = (keys, src')
         \<or> (hmac_contract L \<and> generateKeysFromSeed L rt seed index = Inr keys)"
  shows "\<exists>signature.
           sign L rt message (privateKey keys) = Inr signature
         \<and> verify L rt message signature (publicKey keys) = True"
proof -
  have own: "\<exists>signature.
      sign L rt message (encodeKey L rt priv) = Inr signature
    \<and> verify L rt message signature (encodeKey L rt (getRawPublicKeyFromRawPrivateKey L priv)) = True"
    if "canonical_entries L priv" and "length priv = KEY_SIG_ENTRY_COUNT" for priv
    using own_signature_verifies(1) [OF that assms(1-4), of message]
      own_signature_verifies(2) [OF that assms(1-4), of message "[]"]
      own_signature_verifies(3) [OF that assms(1-4), of message]
    by simp
  from assms(5) show ?thesis
  proof
    assume g: "generateKeys L rt src = (keys, src')"
    let ?priv = "fst (generateRandomArray L KEY_SIG_ENTRY_COUNT HASH_ELEMENT_BYTE_SIZE src)"
    have keys: "keys = \<lparr>privateKey = encodeKey L rt ?priv,
        publicKey = encodeKey L rt (getRawPublicKeyFromRawPrivateKey L ?priv)\<rparr>"
      using g by (simp add: generateKeys_def split_beta Let_def)
    from generateRandomArray_shape [OF assms(1), of 264 src] own [of ?priv]
    show ?thesis
      by (simp add: keys)
  next
    assume s: "hmac_contract L \<and> generateKeysFromSeed L rt seed index = Inr keys"
    let ?ix = "case index of None \<Rightarrow> 0 | Some i \<Rightarrow> i"
    let ?priv = "generateRandomArrayFromSeed L KEY_SIG_ENTRY_COUNT seed ?ix"
    have keys: "keys = \<lparr>privateKey = encodeKey L rt ?priv,
        publicKey = encodeKey L rt (getRawPublicKeyFromRawPrivateKey L ?priv)\<rparr>"
      using s by (simp add: generateKeysFromSeed_def Let_def split: if_splits)
    from s have "canonical_entries L ?priv"
      using canonical_seed_key [OF assms(1)] by blast
    from own [OF this] show ?thesis
      by (simp add: keys length_generateRandomArrayFromSeed)
  qed
qed

lemma hex_instance_ok:
  "binary_safe (hashEncoding hex_instance)"
  "hash_contract hex_instance"
  "hmac_contract hex_instance"
  "format_ok demo_runtime (keyFormat hex_instance)"
  "format_ok demo_runtime (signatureFormat hex_instance)"
  "entries_nonempty (hashEncoding hex_instance)"
  "length (Hash_spec hex_instance message) = HASH_ELEMENT_BYTE_SIZE"
  unfolding hex_instance_def
  by (simp_all add: demo_instance_fields binary_safe_hex lossless_hex demo_hash_contract
      demo_hmac_contract entries_nonempty_hex demo_hash_length)

theorem verify_accepts_own_signature_witness:
  "(\<exists>signature.
      sign hex_instance demo_runtime ''hello world''
        (privateKey (fst (generateKeys hex_instance demo_runtime (sconst 7)))) = Inr signature
    \<and> verify hex_instance demo_runtime ''hello world'' signature
        (publicKey (fst (generateKeys hex_instance demo_runtime (sconst 7)))) = True)
   \<and> (\<exists>keys signature.
      generateKeysFromSeed hex_instance demo_runtime (replicate 64 (CHR ''0'')) (Some 0) = Inr keys
    \<and> sign hex_instance demo_runtime ''hello world'' (privateKey keys) = Inr signature
    \<and> verify hex_instance demo_runtime ''hello world'' signature (publicKey keys) = True)"
proof -
  obtain keys src' where g: "generateKeys hex_instance demo_runtime (sconst 7) = (keys, src')"
    by (cases "generateKeys hex_instance demo_runtime (sconst 7)")
  have a: "\<exists>signature.
      sign hex_instance demo_runtime ''hello world''
        (privateKey (fst (generateKeys hex_instance demo_runtime (sconst 7)))) = Inr signature
    \<and> verify hex_instance demo_runtime ''hello world'' signature
        (publicKey (fst (generateKeys hex_instance demo_runtime (sconst 7)))) = True"
    using verify_accepts_own_signature
      [OF hex_instance_ok(1,2,4,5) disjI1 [OF g], of "''hello world''"]
    by (simp add: g)
  have "SEED_BYTE_SIZE \<le> length (from_text (seedEncoding hex_instance) (replicate 64 (CHR ''0'')))"
    using hex_from_zeros [of 32] by (simp add: hex_instance_def demo_instance_fields hex_def)
  then obtain keys' where
    s: "generateKeysFromSeed hex_instance demo_runtime (replicate 64 (CHR ''0'')) (Some 0) = Inr keys'"
    by (simp add: generateKeysFromSeed_def Let_def)
  have b: "\<exists>signature.
      sign hex_instance demo_runtime ''hello world'' (privateKey keys') = Inr signature
    \<and> verify hex_instance demo_runtime ''hello world'' signature (publicKey keys') = True"
    by (rule verify_accepts_own_signature
        [OF hex_instance_ok(1,2,4,5) disjI2 [OF conjI [OF hex_instance_ok(3) s]]])
  from a b s show ?thesis
    by blast
qed

lemma demo_signature_verifies:
  "verify hex_instance demo_runtime message
     (encodeSignature hex_instance demo_runtime (signRaw hex_instance message demo_key))
     (encodeKey hex_instance demo_runtime (getRawPublicKeyFromRawPrivateKey hex_instance demo_key))"
proof -
  have c: "canonical_entries hex_instance demo_key"
    by (rule canonical_demo_key) (simp add: hex_instance_def demo_instance_fields)
  from own_signature_verifies(2) [OF c length_demo_key hex_instance_ok(1,2,4,5), of message "[]"]
    own_signature_verifies(3) [OF c length_demo_key hex_instance_ok(1,2,4,5), of message]
  show ?thesis
    by simp
qed

theorem verify_refines_forward_cursor_witness:
  "verify hex_instance demo_runtime ''hello''
     (encodeSignature hex_instance demo_runtime (signRaw hex_instance ''hello'' demo_key))
     (encodeKey hex_instance demo_runtime (getRawPublicKeyFromRawPrivateKey hex_instance demo_key))
   = verify_spec hex_instance demo_runtime ''hello''
     (encodeSignature hex_instance demo_runtime (signRaw hex_instance ''hello'' demo_key))
     (encodeKey hex_instance demo_runtime (getRawPublicKeyFromRawPrivateKey hex_instance demo_key))
   \<and> verify_spec hex_instance demo_runtime ''hello''
     (encodeSignature hex_instance demo_runtime (signRaw hex_instance ''hello'' demo_key))
     (encodeKey hex_instance demo_runtime (getRawPublicKeyFromRawPrivateKey hex_instance demo_key))"
  using verify_refines_forward_cursor [where L = hex_instance and message = "''hello''"
      and rt = demo_runtime
      and signature = "encodeSignature hex_instance demo_runtime (signRaw hex_instance ''hello'' demo_key)"
      and publicKey' = "encodeKey hex_instance demo_runtime (getRawPublicKeyFromRawPrivateKey hex_instance demo_key)",
      OF hex_instance_ok(7)]
    demo_signature_verifies [of "''hello''"]
  by simp

subsection \<open>C8: signatures with too many or too few entries\<close>

text \<open>
  Claim C8. Take a key pair, a message whose digest has 32 bytes, and any signature that
  decodes. \<open>verify\<close> accepts exactly when the signature has at least as many entries as the
  bit array has 1-bits and the hash of its \<open>j\<close>-th entry is the public entry at the
  position of the \<open>j\<close>-th 1-bit; so it rejects only by running out of entries or by a hash
  that does not match at a 1-bit, and the number of entries is checked in no other way.
  In particular the entries of \<open>sign\<close> followed by any further entries are accepted, and a
  proper initial part of the entries of \<open>sign\<close> is rejected.
\<close>

theorem verify_entry_count:
  assumes "decodeKey L rt privateKey' = Inr privateKeyRaw"
    and "decodeKey L rt publicKey' = Inr (getRawPublicKeyFromRawPrivateKey L privateKeyRaw)"
    and "decodeSignature L rt signature = Inr signatureRaw"
    and "entries_nonempty (hashEncoding L)"
    and "length (Hash_spec L message) = HASH_ELEMENT_BYTE_SIZE"
  shows "(verify L rt message signature publicKey' \<longleftrightarrow>
            popcount (messageBitArrayOf L message) \<le> length signatureRaw
          \<and> (\<forall>j < popcount (messageBitArrayOf L message).
                sha256 L (signatureRaw ! j) (hashEncoding L) =
                getRawPublicKeyFromRawPrivateKey L privateKeyRaw
                  ! (onePositions (messageBitArrayOf L message) ! j)))
       \<and> (\<not> verify L rt message signature publicKey' \<longleftrightarrow>
            length signatureRaw < popcount (messageBitArrayOf L message)
          \<or> (\<exists>j < popcount (messageBitArrayOf L message).
                sha256 L (signatureRaw ! j) (hashEncoding L) \<noteq>
                getRawPublicKeyFromRawPrivateKey L privateKeyRaw
                  ! (onePositions (messageBitArrayOf L message) ! j)))
       \<and> ((\<exists>extra. signatureRaw = signRaw L message privateKeyRaw @ extra)
            \<longrightarrow> verify L rt message signature publicKey' = True)
       \<and> ((\<exists>n < length (signRaw L message privateKeyRaw).
              signatureRaw = take n (signRaw L message privateKeyRaw))
            \<longrightarrow> verify L rt message signature publicKey' = False)"
proof -
  let ?bits = "messageBitArrayOf L message"
  let ?ones = "onePositions ?bits"
  let ?pub = "getRawPublicKeyFromRawPrivateKey L privateKeyRaw"
  have v: "verify L rt message signature publicKey' = verifyRaw L message signatureRaw ?pub"
    by (simp add: verify_def assms(2,3))
  have bits: "length ?bits = 264"
    using assms(5) by (simp add: length_messageBitArrayOf)
  have key: "length privateKeyRaw = 264"
    using assms(1) by (rule decodeKey_length)
  have ne: "[] \<notin> set privateKeyRaw"
    using assms(1,4) by (rule decodeKey_nonempty)
  have idx: "js_index ?pub (?ones ! j) = Some h \<longleftrightarrow> h = ?pub ! (?ones ! j)"
    if "j < popcount ?bits" for j h
  proof -
    have "?ones ! j \<in> set ?ones"
      using that by (simp add: length_onePositions)
    then have "?ones ! j < length ?pub"
      using onePositions_bound [of "?ones ! j" ?bits] by (simp add: bits key length_getRawPublicKey)
    then show ?thesis
      by (auto simp: js_index_def)
  qed
  have iff: "verify L rt message signature publicKey' \<longleftrightarrow>
      popcount ?bits \<le> length signatureRaw
    \<and> (\<forall>j < popcount ?bits. sha256 L (signatureRaw ! j) (hashEncoding L) = ?pub ! (?ones ! j))"
    unfolding v verifyRaw_iff Let_def length_onePositions using idx by auto
  have len: "length (signRaw L message privateKeyRaw) = popcount ?bits"
    unfolding signRaw_def
    by (subst selectEntries_onePositions) (simp_all add: bits key ne length_onePositions)
  have more: "verify L rt message signature publicKey'"
    if "signatureRaw = signRaw L message privateKeyRaw @ extra" for extra
    unfolding v that by (rule verifyRaw_accepts) (simp_all add: bits key ne)
  have fewer: "\<not> verify L rt message signature publicKey'"
    if "n < length (signRaw L message privateKeyRaw)"
      and "signatureRaw = take n (signRaw L message privateKeyRaw)" for n
    unfolding v by (rule verifyRaw_rejects_short) (use that len in simp)
  have neg: "\<not> verify L rt message signature publicKey' \<longleftrightarrow>
      length signatureRaw < popcount ?bits
    \<or> (\<exists>j < popcount ?bits. sha256 L (signatureRaw ! j) (hashEncoding L) \<noteq> ?pub ! (?ones ! j))"
    unfolding iff by auto
  from iff neg more fewer show ?thesis
    by blast
qed


lemma canonical_demo_signature:
  "canonical_entries hex_instance (signRaw hex_instance message demo_key)"
proof -
  have "canonical_entries hex_instance demo_key"
    by (rule canonical_demo_key) (simp add: hex_instance_def demo_instance_fields)
  then show ?thesis
    using set_selectEntries unfolding signRaw_def by (rule canonical_entries_subset)
qed

lemma length_demo_signature: "length (signRaw hex_instance ''hello'' demo_key) = 66"
proof -
  have "canonical_entries hex_instance demo_key"
    by (rule canonical_demo_key) (simp add: hex_instance_def demo_instance_fields)
  then have ne: "[] \<notin> set demo_key"
    using hex_instance_ok(6) by (rule canonical_entries_nonempty)
  have "length (messageBitArrayOf hex_instance ''hello'') \<le> length demo_key"
    using hex_instance_ok(7) [of "''hello''"] by (simp add: length_messageBitArrayOf length_demo_key)
  from selectEntries_onePositions [OF this ne] show ?thesis
    by (simp add: signRaw_def length_onePositions popcount_hello)
qed

theorem verify_entry_count_witness:
  "verify hex_instance demo_runtime ''hello''
     (encodeSignature hex_instance demo_runtime (signRaw hex_instance ''hello'' demo_key @ [hd demo_key]))
     (encodeKey hex_instance demo_runtime (getRawPublicKeyFromRawPrivateKey hex_instance demo_key))
   = True
   \<and> verify hex_instance demo_runtime ''hello''
     (encodeSignature hex_instance demo_runtime (take 65 (signRaw hex_instance ''hello'' demo_key)))
     (encodeKey hex_instance demo_runtime (getRawPublicKeyFromRawPrivateKey hex_instance demo_key))
   = False"
proof -
  let ?sig = "signRaw hex_instance ''hello'' demo_key"
  let ?pub = "getRawPublicKeyFromRawPrivateKey hex_instance demo_key"
  have cd: "canonical_entries hex_instance demo_key"
    by (rule canonical_demo_key) (simp add: hex_instance_def demo_instance_fields)
  have pub: "decodeKey hex_instance demo_runtime (encodeKey hex_instance demo_runtime ?pub) = Inr ?pub"
    by (rule decodeKey_encodeKey)
      (simp_all add: canonical_public_key hex_instance_ok length_getRawPublicKey length_demo_key)
  have "hd demo_key \<in> set demo_key"
    by (simp add: demo_key_def upt_rec)
  then have "set (?sig @ [hd demo_key]) \<subseteq> set demo_key"
    using set_selectEntries [of "messageBitArrayOf hex_instance ''hello''" demo_key]
    by (simp add: signRaw_def)
  with cd have "canonical_entries hex_instance (?sig @ [hd demo_key])"
    by (rule canonical_entries_subset)
  then have more: "decodeSignature hex_instance demo_runtime
      (encodeSignature hex_instance demo_runtime (?sig @ [hd demo_key])) = Inr (?sig @ [hd demo_key])"
    by (rule decodeSignature_encodeSignature) (simp_all add: length_demo_signature hex_instance_ok)
  have "set (take 65 ?sig) \<subseteq> set demo_key"
    using set_selectEntries [of "messageBitArrayOf hex_instance ''hello''" demo_key] set_take_subset [of 65 ?sig]
    by (simp add: signRaw_def)
  with cd have "canonical_entries hex_instance (take 65 ?sig)"
    by (rule canonical_entries_subset)
  then have fewer: "decodeSignature hex_instance demo_runtime
      (encodeSignature hex_instance demo_runtime (take 65 ?sig)) = Inr (take 65 ?sig)"
    by (rule decodeSignature_encodeSignature) (simp_all add: length_demo_signature hex_instance_ok)
  from verify_entry_count [OF decodeKey_demo_key pub more hex_instance_ok(6,7)]
  have a: "verify hex_instance demo_runtime ''hello''
      (encodeSignature hex_instance demo_runtime (?sig @ [hd demo_key]))
      (encodeKey hex_instance demo_runtime ?pub) = True"
    by blast
  have "\<exists>n < length ?sig. take 65 ?sig = take n ?sig"
    by (rule exI [of _ 65]) (simp add: length_demo_signature)
  with verify_entry_count [OF decodeKey_demo_key pub fewer hex_instance_ok(6,7)]
  have b: "verify hex_instance demo_runtime ''hello''
      (encodeSignature hex_instance demo_runtime (take 65 ?sig))
      (encodeKey hex_instance demo_runtime ?pub) = False"
    by blast
  from a b show ?thesis
    by blast
qed

subsection \<open>C10: what \<open>verify\<close> writes to\<close>

lemma deref_append: "valid_in st v \<Longrightarrow> deref (st @ objs) v = deref st v"
  by (cases v) (simp_all add: deref_def valid_in_def nth_append)

lemma valid_in_append: "valid_in st v \<Longrightarrow> valid_in (st @ objs) v"
  by (cases v) (simp_all add: valid_in_def)

lemma items_of_array_of: "items_of (array_of raw) = map JStr raw"
  by (simp add: items_of_def array_of_def)

lemma validateRawSignatureFormat_items:
  "validateRawSignatureFormat L v = Inr u \<Longrightarrow> items_of v = map JStr (strings_of v)"
  using validateRawSignatureFormat_strings [of L v u] items_of_array_of [of "strings_of v"]
  by simp

lemma validateRawKeyFormat_items:
  "validateRawKeyFormat L v = Inr u \<Longrightarrow> items_of v = map JStr (strings_of v)"
  using validateRawKeyFormat_strings [of L v u] items_of_array_of [of "strings_of v"]
  by simp

text \<open>The decoders over the store decode what the caller sees, into a new object.\<close>

lemma decodeSignatureH_decodeSignature:
  "decodeSignatureH L rt st v =
     (case decodeSignature L rt (deref st v) of
        Inl e \<Rightarrow> Inl e
      | Inr raw \<Rightarrow> Inr (length st, st @ [map JStr raw]))"
  by (cases "signatureFormat L")
    (auto simp: decodeSignatureH_def decodeSignature_def validateRawSignatureFormat_items
      split: sum.splits)

lemma decodeKeyH_decodeKey:
  "decodeKeyH L rt st v =
     (case decodeKey L rt (deref st v) of
        Inl e \<Rightarrow> Inl e
      | Inr raw \<Rightarrow>
          (if keyFormat L = FObject then Inr (v, st)
           else Inr (HRef (length st), st @ [map JStr raw])))"
  by (cases "keyFormat L")
    (auto simp: decodeKeyH_def decodeKey_def validateRawKeyFormat_items split: sum.splits)

lemma decodeKey_object_array:
  "keyFormat L = FObject \<Longrightarrow> decodeKey L rt v = Inr raw \<Longrightarrow> v = array_of raw"
  using validateRawKeyFormat_strings [of L v]
  by (auto simp: decodeKey_def split: sum.splits)

lemma js_index_map_JStr:
  "js_index (map JStr raw) i = Some (JStr h) \<longleftrightarrow> js_index raw i = Some h"
  by (simp add: js_index_def)

text \<open>
  The walk over the store pops only the object it is given, and computes what the walk
  over values computes, when the key is another object.
\<close>

lemma verifyEveryH_verifyEvery:
  assumes "sa < length st" and "st ! sa = map JStr inverted"
    and "deref st pk = array_of pkraw" and "pk \<noteq> HRef sa"
  shows "fst (verifyEveryH L sa pk st steps) = verifyEvery L inverted pkraw steps
       \<and> length (snd (verifyEveryH L sa pk st steps)) = length st
       \<and> (\<forall>a. a \<noteq> sa \<longrightarrow> snd (verifyEveryH L sa pk st steps) ! a = st ! a)"
  using assms
proof (induction steps arbitrary: st inverted)
  case Nil
  show ?case by simp
next
  case (Cons step steps)
  obtain index b where step: "step = (index, b)"
    by (cases step)
  show ?case
  proof (cases "b = 0")
    case True
    then show ?thesis
      using Cons.IH [OF Cons.prems] by (simp add: step)
  next
    case False
    show ?thesis
    proof (cases "inverted = []")
      case True
      then show ?thesis
        using False Cons.prems(2) by (simp add: step)
    next
      case ne: False
      let ?st' = "st[sa := butlast (st ! sa)]"
      have popped: "?st' ! sa = map JStr (butlast inverted)"
        using Cons.prems(1,2) by (simp add: map_butlast)
      have lastitem: "last (st ! sa) = JStr (last inverted)"
        using ne Cons.prems(2) by (simp add: last_map)
      have key: "deref ?st' pk = array_of pkraw"
        using Cons.prems(3,4) by (cases pk) (auto simp: deref_def)
      have len: "sa < length ?st'"
        using Cons.prems(1) by simp
      note ih = Cons.IH [OF len popped key Cons.prems(4)]
      have target: "Some (JStr h) = js_index (items_of (deref ?st' pk)) index
          \<longleftrightarrow> Some h = js_index pkraw index" for h
        using js_index_map_JStr [of pkraw index h] by (auto simp: key items_of_array_of)
      have nonempty: "length (st ! sa) \<noteq> 0"
        using ne Cons.prems(2) by simp
      have here: "verifyEvery L inverted pkraw (step # steps) =
          (if Some (sha256 L (last inverted) (hashEncoding L)) = js_index pkraw index
           then verifyEvery L (butlast inverted) pkraw steps else False)"
        using False ne by (simp add: step Let_def)
      have there: "verifyEveryH L sa pk st (step # steps) =
          (if Some (sha256 L (last inverted) (hashEncoding L)) = js_index pkraw index
           then verifyEveryH L sa pk ?st' steps else (False, ?st'))"
        using False nonempty by (simp add: step Let_def lastitem string_of_item_def target)
      show ?thesis
        unfolding here there using ih by simp
    qed
  qed
qed

lemma verifyH_verify:
  assumes "valid_in st signature" and "valid_in st publicKey'"
  shows "fst (verifyH L rt st message signature publicKey') =
           verify L rt message (deref st signature) (deref st publicKey')
       \<and> length st \<le> length (snd (verifyH L rt st message signature publicKey'))
       \<and> (\<forall>a < length st. snd (verifyH L rt st message signature publicKey') ! a = st ! a)"
proof (cases "decodeSignature L rt (deref st signature)")
  case (Inl e)
  then show ?thesis
    by (simp add: verifyH_def verify_def decodeSignatureH_decodeSignature)
next
  case sig: (Inr sig)
  let ?sa = "length st"
  let ?st1 = "st @ [map JStr sig]"
  have dsig: "decodeSignatureH L rt st signature = Inr (?sa, ?st1)"
    by (simp add: decodeSignatureH_decodeSignature sig)
  have seen: "deref ?st1 publicKey' = deref st publicKey'"
    using assms(2) by (rule deref_append)
  show ?thesis
  proof (cases "decodeKey L rt (deref st publicKey')")
    case (Inl e)
    then show ?thesis
      by (simp add: verifyH_def verify_def dsig sig decodeKeyH_decodeKey seen nth_append)
  next
    case pk: (Inr pkraw)
    define pkref where "pkref = (if keyFormat L = FObject then publicKey' else HRef (length ?st1))"
    define st2 where "st2 = (if keyFormat L = FObject then ?st1 else ?st1 @ [map JStr pkraw])"
    have dkey: "decodeKeyH L rt ?st1 publicKey' = Inr (pkref, st2)"
      by (simp add: decodeKeyH_decodeKey seen pk pkref_def st2_def)
    have st2: "st2 = ?st1 @ drop (Suc ?sa) st2" "?sa < length st2" "st2 ! ?sa = map JStr sig"
      by (simp_all add: st2_def)
    have old: "st2 ! a = st ! a" if "a < length st" for a
      using that by (simp add: st2_def nth_append)
    have noalias: "pkref \<noteq> HRef ?sa"
      using assms(2) by (auto simp: pkref_def valid_in_def)
    have keyseen: "deref st2 pkref = array_of pkraw"
    proof (cases "keyFormat L = FObject")
      case True
      then have "deref st publicKey' = array_of pkraw"
        using pk by (rule decodeKey_object_array)
      then show ?thesis
        using True seen by (simp add: pkref_def st2_def)
    next
      case False
      have "(?st1 @ [map JStr pkraw]) ! length ?st1 = map JStr pkraw"
        by (rule nth_append_length)
      then show ?thesis
        using False by (simp add: pkref_def st2_def deref_def array_of_def)
    qed
    let ?st3 = "st2[?sa := rev (st2 ! ?sa)]"
    have st3: "?sa < length ?st3" "?st3 ! ?sa = map JStr (rev sig)"
      using st2(2,3) by (simp_all add: rev_map)
    have keyseen3: "deref ?st3 pkref = array_of pkraw"
      using keyseen noalias by (cases pkref) (auto simp: deref_def)
    let ?steps = "enumerate 0 (messageBitArrayOf L message)"
    note loop = verifyEveryH_verifyEvery [OF st3 keyseen3 noalias, of L ?steps]
    have result: "verifyH L rt st message signature publicKey' = verifyEveryH L ?sa pkref ?st3 ?steps"
      by (simp add: verifyH_def dsig dkey Let_def)
    have plain: "verify L rt message (deref st signature) (deref st publicKey') =
        verifyEvery L (rev sig) pkraw ?steps"
      by (simp add: verify_def sig pk verifyRaw_def Let_def)
    have "snd (verifyEveryH L ?sa pkref ?st3 ?steps) ! a = st ! a" if "a < length st" for a
    proof -
      have "snd (verifyEveryH L ?sa pkref ?st3 ?steps) ! a = ?st3 ! a"
        using loop that by simp
      also have "\<dots> = st2 ! a"
        using that by simp
      finally show ?thesis
        using old [OF that] by simp
    qed
    moreover have "length st \<le> length (snd (verifyEveryH L ?sa pkref ?st3 ?steps))"
      using loop st2(2) by simp
    ultimately show ?thesis
      unfolding result plain using loop by simp
  qed
qed

text \<open>
  Claim C10. Let the signature and the public key the caller passes be values or
  references to array objects of the store. After \<open>verify\<close> every array object that existed
  before the call has the entries it had, so the caller reads the same signature and the
  same public key as before (the message is a string, which nothing can change); what
  \<open>verify\<close> reverses and pops is an object made during the call. The boolean is the one
  the model without a store computes from what the caller sees.
\<close>

theorem verify_leaves_arguments_unchanged:
  assumes "valid_in st signature" and "valid_in st publicKey'"
  shows "(\<forall>a < length st. snd (verifyH L rt st message signature publicKey') ! a = st ! a)
       \<and> deref (snd (verifyH L rt st message signature publicKey')) signature = deref st signature
       \<and> deref (snd (verifyH L rt st message signature publicKey')) publicKey' = deref st publicKey'
       \<and> fst (verifyH L rt st message signature publicKey') =
           verify L rt message (deref st signature) (deref st publicKey')"
proof -
  let ?st' = "snd (verifyH L rt st message signature publicKey')"
  note v = verifyH_verify [OF assms, of L rt message]
  have same: "deref ?st' x = deref st x" if "valid_in st x" for x
    using that v by (cases x) (auto simp: deref_def valid_in_def)
  show ?thesis
    using v same [OF assms(1)] same [OF assms(2)] by simp
qed

lemma object_instance_ok:
  "binary_safe (hashEncoding object_instance)"
  "hash_contract object_instance"
  "format_ok demo_runtime (keyFormat object_instance)"
  "format_ok demo_runtime (signatureFormat object_instance)"
  "keyFormat object_instance = FObject"
  "signatureFormat object_instance = FObject"
  unfolding object_instance_def
  by (simp_all add: demo_instance_fields binary_safe_hex demo_hash_contract)

lemma demo_store_verifies:
  "verify object_instance demo_runtime ''hello'' (deref demo_store (HRef 0)) (deref demo_store (HRef 1))"
proof -
  have c: "canonical_entries object_instance demo_key"
    by (rule canonical_demo_key) (simp add: object_instance_def demo_instance_fields)
  have "deref demo_store (HRef 0) =
      encodeSignature object_instance demo_runtime (signRaw object_instance ''hello'' demo_key)"
    "deref demo_store (HRef 1) =
      encodeKey object_instance demo_runtime (getRawPublicKeyFromRawPrivateKey object_instance demo_key)"
    by (simp_all add: deref_def demo_store_def encodeSignature_def encodeKey_def array_of_def
        object_instance_ok)
  then show ?thesis
    using own_signature_verifies(2) [OF c length_demo_key object_instance_ok(1-4), of "''hello''" "[]"]
      own_signature_verifies(3) [OF c length_demo_key object_instance_ok(1-4), of "''hello''"]
    by simp
qed

theorem verify_leaves_arguments_unchanged_witness:
  "fst (verifyH object_instance demo_runtime demo_store ''hello'' (HRef 0) (HRef 1)) = True
   \<and> snd (verifyH object_instance demo_runtime demo_store ''hello'' (HRef 0) (HRef 1)) ! 0
       = map JStr (signRaw object_instance ''hello'' demo_key)
   \<and> snd (verifyH object_instance demo_runtime demo_store ''hello'' (HRef 0) (HRef 1)) ! 1
       = map JStr (getRawPublicKeyFromRawPrivateKey object_instance demo_key)"
proof -
  have v: "valid_in demo_store (HRef 0)" "valid_in demo_store (HRef 1)"
    by (simp_all add: valid_in_def demo_store_def)
  note t = verify_leaves_arguments_unchanged [OF v, of object_instance demo_runtime "''hello''"]
  from t demo_store_verifies
  have a: "fst (verifyH object_instance demo_runtime demo_store ''hello'' (HRef 0) (HRef 1)) = True"
    by simp
  from t have "\<forall>a < length demo_store.
      snd (verifyH object_instance demo_runtime demo_store ''hello'' (HRef 0) (HRef 1)) ! a = demo_store ! a"
    by blast
  then have "snd (verifyH object_instance demo_runtime demo_store ''hello'' (HRef 0) (HRef 1)) ! 0 = demo_store ! 0"
    "snd (verifyH object_instance demo_runtime demo_store ''hello'' (HRef 0) (HRef 1)) ! 1 = demo_store ! 1"
    by (simp_all add: demo_store_def)
  with a show ?thesis
    by (simp add: demo_store_def)
qed

end
